(* ===== verification/Prelude.thy ===== *)
theory Prelude
  imports Complex_Main "HOL-Library.Word"
begin

text \<open>
  Shared vocabulary of the development.

  \<^item> JavaScript numbers. The modelled code keeps integers in IEEE doubles and applies the 32-bit
    operators \<open><< >> >>> & | ^\<close> to them. A number is an \<open>int\<close> here and the operators are
    written out with their ECMAScript conversions (\<open>ToInt32\<close>, \<open>ToUint32\<close>, shift count modulo
    32). \<open>undefined\<close> and \<open>NaN\<close> are \<open>None\<close> of an \<open>int option\<close>: the operators send both to 0.
  \<^item> Strings are lists of UTF-16 code units, \<open>16 word list\<close>.
  \<^item> A \<open>throw\<close> is \<open>Inl\<close> of a \<open>js_error\<close>; \<open>rbind\<close> sequences fallible code and \<open>rfold\<close> is a
    \<open>for\<close> loop whose body may throw.
\<close>

unbundle bit_operations_syntax

named_theorems js_ops \<open>evaluation and range facts of the JavaScript integer operators\<close>

type_synonym jsstring = "16 word list"

text \<open>A string literal of the source, all of whose characters are ASCII.\<close>

definition js :: "string \<Rightarrow> jsstring" where
  "js s = map (\<lambda>c. of_nat (of_char c)) s"

subsection \<open>Errors\<close>

datatype js_error =
    Glog int
  | CodeLengthOverflow nat nat
  | BadRSBlock int "int option"
  | BadMaskPattern int
  | BadMode int
  | BadType int
  | BadDataMode jsstring
  | IllegalChar "16 word"
  | IllegalCharAt nat "int option"
  | SjisNotSupported
  | OutsideSymbol int int
  | BadSextet int
  | BadBase64Char int
  | UnexpectedEof nat
  | EofInMap
  | CountMismatch nat nat
  | LengthOver
  | DupKey
  | TypeError
  | RangeError
  | URIError
  | InvalidCharacterError
  | InvalidStateError
  | InvalidFileUrlPath
  | ReferenceError

type_synonym 'a result = "js_error + 'a"

definition rbind :: "'e + 'a \<Rightarrow> ('a \<Rightarrow> 'e + 'b) \<Rightarrow> 'e + 'b" where
  "rbind r f = (case r of Inl e \<Rightarrow> Inl e | Inr x \<Rightarrow> f x)"

lemma rbind_Inl [simp]: "rbind (Inl e) f = Inl e"
  by (simp add: rbind_def)

lemma rbind_Inr [simp]: "rbind (Inr x) f = f x"
  by (simp add: rbind_def)

lemma rbind_cong [fundef_cong]:
  "r = s \<Longrightarrow> (\<And>x. s = Inr x \<Longrightarrow> f x = g x) \<Longrightarrow> rbind r f = rbind s g"
  by (auto simp: rbind_def split: sum.splits)

lemma rbind_eq_Inr: "rbind r f = Inr y \<longleftrightarrow> (\<exists>x. r = Inr x \<and> f x = Inr y)"
  by (auto simp: rbind_def split: sum.splits)

lemma rbind_assoc: "rbind (rbind r f) g = rbind r (\<lambda>x. rbind (f x) g)"
  by (auto simp: rbind_def split: sum.splits)

lemma rbind_return [simp]: "rbind r Inr = r"
  by (auto simp: rbind_def split: sum.splits)

text \<open>A \<open>for\<close> loop over the elements of a list whose body may throw.\<close>

fun rfold :: "('a \<Rightarrow> 's \<Rightarrow> 'e + 's) \<Rightarrow> 'a list \<Rightarrow> 's \<Rightarrow> 'e + 's" where
  "rfold f [] s = Inr s"
| "rfold f (x # xs) s = rbind (f x s) (rfold f xs)"

lemma rfold_append: "rfold f (xs @ ys) s = rbind (rfold f xs s) (rfold f ys)"
  by (induction xs arbitrary: s) (auto simp: rbind_def split: sum.splits)

lemma rfold_snoc [simp]: "rfold f (xs @ [x]) s = rbind (rfold f xs s) (f x)"
  by (induction xs arbitrary: s) (auto simp: rbind_def split: sum.splits)

lemma rfold_cong [fundef_cong]:
  "xs = ys \<Longrightarrow> s = t \<Longrightarrow> (\<And>x u. x \<in> set ys \<Longrightarrow> f x u = g x u) \<Longrightarrow> rfold f xs s = rfold g ys t"
proof (induction xs arbitrary: s t ys)
  case (Cons x xs)
  then show ?case
    by (auto simp: rbind_def fun_eq_iff split: sum.splits)
qed simp

lemma rfold_Inr: "(\<And>x u. x \<in> set xs \<Longrightarrow> f x u = Inr (g x u)) \<Longrightarrow> rfold f xs s = Inr (fold g xs s)"
  by (induction xs arbitrary: s) auto

lemma rfold_invariant:
  assumes "\<And>x s s'. x \<in> set xs \<Longrightarrow> I s \<Longrightarrow> f x s = Inr s' \<Longrightarrow> I s'"
    and "I s" and "rfold f xs s = Inr s'"
  shows "I s'"
  using assms
proof (induction xs arbitrary: s)
  case (Cons x xs)
  then obtain t where "f x s = Inr t" "rfold f xs t = Inr s'"
    by (auto simp: rbind_eq_Inr)
  with Cons show ?case by (metis list.set_intros)
qed simp

text \<open>Induction for loops that take two or three list elements at a time.\<close>

lemma list_pair_induct [case_names Nil Single Pair]:
  "P [] \<Longrightarrow> (\<And>a. P [a]) \<Longrightarrow> (\<And>a b xs. P xs \<Longrightarrow> P (a # b # xs)) \<Longrightarrow> P xs"
  by induction_schema (pat_completeness, lexicographic_order)

lemma list_triple_induct [case_names Nil Single Double Triple]:
  "P [] \<Longrightarrow> (\<And>a. P [a]) \<Longrightarrow> (\<And>a b. P [a, b]) \<Longrightarrow> (\<And>a b c xs. P xs \<Longrightarrow> P (a # b # c # xs)) \<Longrightarrow> P xs"
  by induction_schema (pat_completeness, lexicographic_order)

text \<open>A counted loop that does not throw keeps an invariant indexed by the counter.\<close>

lemma rfold_upt_total:
  assumes "\<And>i s. i < n \<Longrightarrow> I i s \<Longrightarrow> \<exists>s'. f i s = Inr s' \<and> I (Suc i) s'" and "I 0 s"
  shows "\<exists>s'. rfold f [0..<n] s = Inr s' \<and> I n s'"
  using assms(1)
proof (induction n)
  case 0
  with assms(2) show ?case by simp
next
  case (Suc n)
  then obtain t where t: "rfold f [0..<n] s = Inr t" "I n t" by (meson less_SucI)
  from Suc.prems [OF _ t(2)] obtain u where "f n t = Inr u" "I (Suc n) u" by auto
  with t show ?case by (simp add: rfold_append)
qed

subsection \<open>Code that may not return\<close>

text \<open>
  The division of polynomials is the one unbounded recursion of the QR encoder. Code that calls
  it returns a \<open>'a run\<close>: \<open>None\<close> is a call that never returns.
\<close>

type_synonym 'a run = "'a result option"

definition run_bind :: "('e + 'a) option \<Rightarrow> ('a \<Rightarrow> ('e + 'b) option) \<Rightarrow> ('e + 'b) option" where
  "run_bind m f = (case m of None \<Rightarrow> None | Some (Inl e) \<Rightarrow> Some (Inl e) | Some (Inr x) \<Rightarrow> f x)"

lemma run_bind_simps [simp]:
  "run_bind None f = None" "run_bind (Some (Inl e)) f = Some (Inl e)"
  "run_bind (Some (Inr x)) f = f x"
  by (simp_all add: run_bind_def)

lemma run_bind_eq_Inr:
  "run_bind m f = Some (Inr y) \<longleftrightarrow> (\<exists>x. m = Some (Inr x) \<and> f x = Some (Inr y))"
  by (auto simp: run_bind_def split: option.splits sum.splits)

lemma run_bind_cong [fundef_cong]:
  "m = n \<Longrightarrow> (\<And>x. n = Some (Inr x) \<Longrightarrow> f x = g x) \<Longrightarrow> run_bind m f = run_bind n g"
  by (auto simp: run_bind_def split: option.splits sum.splits)

text \<open>An array read \<open>xs[i]\<close> at an integer index: \<open>undefined\<close> outside the array.\<close>

definition js_index :: "'a list \<Rightarrow> int \<Rightarrow> 'a option" where
  "js_index xs i = (if 0 \<le> i \<and> i < int (length xs) then Some (xs ! nat i) else None)"

subsection \<open>Arrays filled by a loop\<close>

lemma length_fold_update [simp]: "length (fold (\<lambda>i t. t[k i := f i]) xs t) = length t"
  by (induction xs arbitrary: t) auto

lemma fold_update_other:
  "m \<notin> k ` set xs \<Longrightarrow> fold (\<lambda>i t. t[k i := f i]) xs t ! m = t ! m"
  by (induction xs arbitrary: t) auto

lemma fold_update_nth:
  assumes "i \<in> set xs" "inj_on k (set xs)" "k i < length t"
  shows "fold (\<lambda>i t. t[k i := f i]) xs t ! k i = f i"
  using assms
proof (induction xs arbitrary: t)
  case (Cons x xs)
  show ?case
  proof (cases "i \<in> set xs")
    case True
    with Cons show ?thesis by (simp add: inj_on_def)
  next
    case False
    with Cons.prems have "i = x" "k i \<notin> k ` set xs"
      by (auto simp: inj_on_def)
    with Cons.prems show ?thesis by (simp add: fold_update_other)
  qed
qed simp

subsection \<open>The 32-bit operators\<close>

definition to_int32 :: "int \<Rightarrow> int" where
  "to_int32 x = signed_take_bit 31 x"

definition to_uint32 :: "int \<Rightarrow> int" where
  "to_uint32 x = take_bit 32 x"

definition js_and :: "int \<Rightarrow> int \<Rightarrow> int" where
  "js_and x y = to_int32 x AND to_int32 y"

definition js_or :: "int \<Rightarrow> int \<Rightarrow> int" where
  "js_or x y = to_int32 x OR to_int32 y"

definition js_xor :: "int \<Rightarrow> int \<Rightarrow> int" where
  "js_xor x y = to_int32 x XOR to_int32 y"

definition js_shl :: "int \<Rightarrow> nat \<Rightarrow> int" where
  "js_shl x k = to_int32 (push_bit (k mod 32) (to_int32 x))"

definition js_shr :: "int \<Rightarrow> nat \<Rightarrow> int" where
  "js_shr x k = drop_bit (k mod 32) (to_int32 x)"

definition js_ushr :: "int \<Rightarrow> nat \<Rightarrow> int" where
  "js_ushr x k = drop_bit (k mod 32) (to_uint32 x)"

text \<open>The number an operator sees when its operand is \<open>undefined\<close> or \<open>NaN\<close>.\<close>

definition num_or_0 :: "int option \<Rightarrow> int" where
  "num_or_0 v = (case v of None \<Rightarrow> 0 | Some x \<Rightarrow> x)"

lemma num_or_0_simps [simp]: "num_or_0 None = 0" "num_or_0 (Some x) = x"
  by (simp_all add: num_or_0_def)

text \<open>Addition and subtraction: \<open>NaN\<close> if either operand is \<open>undefined\<close> or \<open>NaN\<close>.\<close>

fun js_add :: "int option \<Rightarrow> int option \<Rightarrow> int option" where
  "js_add (Some x) (Some y) = Some (x + y)"
| "js_add _ _ = None"

fun js_sub :: "int option \<Rightarrow> int option \<Rightarrow> int option" where
  "js_sub (Some x) (Some y) = Some (x - y)"
| "js_sub _ _ = None"

lemmas js_defs = js_and_def js_or_def js_xor_def js_shl_def js_shr_def js_ushr_def
  to_int32_def to_uint32_def

lemma to_int32_id [js_ops]: "0 \<le> x \<Longrightarrow> x < 2 ^ 31 \<Longrightarrow> to_int32 x = x"
  by (simp add: to_int32_def signed_take_bit_int_eq_self)

lemma to_uint32_id [js_ops]: "0 \<le> x \<Longrightarrow> x < 2 ^ 32 \<Longrightarrow> to_uint32 x = x"
  by (simp add: to_uint32_def take_bit_int_eq_self)

lemma bit_to_int32: "bit (to_int32 x) i \<longleftrightarrow> bit x (min i 31)"
  by (auto simp: to_int32_def bit_signed_take_bit_iff min_def)

lemma bit_to_uint32: "bit (to_uint32 x) i \<longleftrightarrow> i < 32 \<and> bit x i"
  by (simp add: to_uint32_def bit_take_bit_iff)

lemma to_int32_idem [simp]: "to_int32 (to_int32 x) = to_int32 x"
  by (rule bit_eqI) (auto simp: bit_to_int32 min_def)

lemma take_bit_to_int32: "n \<le> 32 \<Longrightarrow> take_bit n (to_int32 x) = take_bit n x"
  by (rule bit_eqI) (auto simp: bit_take_bit_iff bit_to_int32 min_def)

lemma js_and_commute: "js_and x y = js_and y x"
  by (simp add: js_and_def and.commute)

lemma js_and_mask:
  assumes "n \<le> 31"
  shows "js_and x (mask n) = take_bit n x"
proof -
  have "(2::int) ^ n \<le> 2 ^ 31" using assms by (intro power_increasing) simp_all
  then have "mask n < (2::int) ^ 31" by (simp add: mask_eq_exp_minus_1)
  then have "to_int32 (mask n) = mask n" by (intro to_int32_id) simp_all
  with assms show ?thesis
    by (simp add: js_and_def flip: take_bit_eq_mask) (simp add: take_bit_to_int32)
qed

lemma mask_numerals: "mask 1 = (1::int)" "mask 6 = (63::int)" "mask 8 = (255::int)"
  by (simp_all add: mask_eq_exp_minus_1)

lemma js_and_1 [js_ops]: "js_and x 1 = x mod 2"
  using js_and_mask [of 1 x] by (simp add: mask_numerals take_bit_eq_mod)

lemma js_and_255 [js_ops]: "js_and x 255 = x mod 256"
  using js_and_mask [of 8 x] by (simp add: mask_numerals take_bit_eq_mod)

lemma js_and_63 [js_ops]: "js_and x 63 = x mod 64"
  using js_and_mask [of 6 x] by (simp add: mask_numerals take_bit_eq_mod)

lemma js_ushr_small [js_ops]:
  "0 \<le> x \<Longrightarrow> x < 2 ^ 32 \<Longrightarrow> k < 32 \<Longrightarrow> js_ushr x k = x div 2 ^ k"
  by (simp add: js_ushr_def to_uint32_id drop_bit_eq_div)

lemma js_xor_small [js_ops]:
  "0 \<le> x \<Longrightarrow> x < 2 ^ 31 \<Longrightarrow> 0 \<le> y \<Longrightarrow> y < 2 ^ 31 \<Longrightarrow> js_xor x y = x XOR y"
  by (simp add: js_xor_def to_int32_id)

lemma js_or_small [js_ops]:
  "0 \<le> x \<Longrightarrow> x < 2 ^ 31 \<Longrightarrow> 0 \<le> y \<Longrightarrow> y < 2 ^ 31 \<Longrightarrow> js_or x y = x OR y"
  by (simp add: js_or_def to_int32_id)

lemma js_shl_small [js_ops]:
  assumes "0 \<le> x" "k < 32" "x * 2 ^ k < 2 ^ 31"
  shows "js_shl x k = x * 2 ^ k"
proof -
  have "x * 1 \<le> x * 2 ^ k" using assms(1) by (intro mult_left_mono) simp_all
  with assms have "x < 2 ^ 31" by linarith
  with assms show ?thesis
    by (simp add: js_shl_def to_int32_id push_bit_eq_mult)
qed

subsection \<open>Bytes\<close>

definition is_byte :: "int \<Rightarrow> bool" where
  "is_byte x \<longleftrightarrow> 0 \<le> x \<and> x < 256"

lemma is_byteI [intro]: "0 \<le> x \<Longrightarrow> x < 256 \<Longrightarrow> is_byte x"
  by (simp add: is_byte_def)

lemma is_byte_mod_256 [simp, intro]: "is_byte (x mod 256)"
  by (simp add: is_byte_def)

lemma is_byte_take_bit: "is_byte x \<longleftrightarrow> take_bit 8 x = x"
  by (auto simp: is_byte_def take_bit_int_eq_self_iff)

lemma is_byte_xor: "is_byte x \<Longrightarrow> is_byte y \<Longrightarrow> is_byte (x XOR y)"
  by (simp add: is_byte_take_bit)

lemma js_xor_byte: "is_byte x \<Longrightarrow> is_byte y \<Longrightarrow> js_xor x y = x XOR y"
  by (simp add: js_xor_small is_byte_def)

lemma is_byte_js_xor: "is_byte x \<Longrightarrow> is_byte y \<Longrightarrow> is_byte (js_xor x y)"
  by (simp add: js_xor_byte is_byte_xor)

lemma js_ushr_byte: "is_byte x \<Longrightarrow> k < 32 \<Longrightarrow> js_ushr x k = x div 2 ^ k"
  by (simp add: js_ushr_small is_byte_def)

end
