(* ===== verification/QR_BitBuffer.thy ===== *)
theory QR_BitBuffer
  imports Prelude
begin

text \<open>
  \<open>qrBitBuffer\<close> of \<open>examples/chat/vendor/qrcode.js\<close>: bits appended to a byte array, most
  significant bit first. The abstract view of a buffer is the list of its bits; the interface
  the data writers use is the locale \<open>bit_sink\<close>, which the buffer interprets.
\<close>

subsection \<open>The operations\<close>

record bit_buffer =
  buffer_bytes :: "int list"
  buffer_length :: nat

definition qrBitBuffer :: bit_buffer where
  "qrBitBuffer = \<lparr>buffer_bytes = [], buffer_length = 0\<rparr>"

text \<open>The test \<open>((x >>> k) & 1) == 1\<close>.\<close>

definition js_bit :: "int \<Rightarrow> nat \<Rightarrow> bool" where
  "js_bit x k \<longleftrightarrow> js_and (js_ushr x k) 1 = 1"

definition bufferAt :: "bit_buffer \<Rightarrow> nat \<Rightarrow> bool" where
  "bufferAt s index =
     (let bufIndex = index div 8
      in js_bit (num_or_0 (js_index (buffer_bytes s) (int bufIndex))) (7 - index mod 8))"

definition putBit :: "bool \<Rightarrow> bit_buffer \<Rightarrow> bit_buffer" where
  "putBit b s =
     (let bufIndex = buffer_length s div 8;
          buf = (if length (buffer_bytes s) \<le> bufIndex then buffer_bytes s @ [0] else buffer_bytes s);
          buf' = (if b then buf[bufIndex := js_or (buf ! bufIndex) (js_ushr 128 (buffer_length s mod 8))]
                  else buf)
      in \<lparr>buffer_bytes = buf', buffer_length = buffer_length s + 1\<rparr>)"

definition put :: "int \<Rightarrow> nat \<Rightarrow> bit_buffer \<Rightarrow> bit_buffer" where
  "put num len s = fold (\<lambda>i. putBit (js_bit num (len - i - 1))) [0..<len] s"

subsection \<open>The abstract view\<close>

definition num_bits :: "int \<Rightarrow> nat \<Rightarrow> bool list" where
  "num_bits n len = map (\<lambda>i. bit n (len - 1 - i)) [0..<len]"

definition buffer_bits :: "bit_buffer \<Rightarrow> bool list" where
  "buffer_bits s = map (bufferAt s) [0..<buffer_length s]"

text \<open>
  The byte array is as long as the bits need, holds bytes, and the bits of the last byte past the
  length are still clear, which is what makes the \<open>|=\<close> of \<open>putBit\<close> an append.
\<close>

definition buffer_inv :: "bit_buffer \<Rightarrow> bool" where
  "buffer_inv s \<longleftrightarrow> length (buffer_bytes s) = (buffer_length s + 7) div 8 \<and>
     list_all is_byte (buffer_bytes s) \<and>
     (\<forall>i\<ge>buffer_length s. \<not> bufferAt s i)"

lemma js_bit_iff: "k < 32 \<Longrightarrow> js_bit x k \<longleftrightarrow> bit x k"
  by (simp add: js_bit_def js_and_1 js_ushr_def to_uint32_def)
     (simp add: bit_drop_bit_eq bit_take_bit_iff flip: bit_0 odd_iff_mod_2_eq_one)

lemma length_num_bits [simp]: "length (num_bits n len) = len"
  by (simp add: num_bits_def)

lemma num_bits_Suc: "num_bits n (Suc len) = bit n len # num_bits n len"
  unfolding num_bits_def by (subst upt_conv_Cons) (simp_all add: map_Suc_upt [symmetric] del: upt_Suc)

lemma num_bits_0 [simp]: "num_bits n 0 = []"
  by (simp add: num_bits_def)

lemma buffer_inv_empty [simp]: "buffer_inv qrBitBuffer"
  by (simp add: buffer_inv_def qrBitBuffer_def bufferAt_def js_index_def js_bit_iff)

lemma buffer_length_empty [simp]: "buffer_length qrBitBuffer = 0"
  by (simp add: qrBitBuffer_def)

lemma buffer_bits_empty [simp]: "buffer_bits qrBitBuffer = []"
  by (simp add: buffer_bits_def qrBitBuffer_def)

lemma length_buffer_bits [simp]: "length (buffer_bits s) = buffer_length s"
  by (simp add: buffer_bits_def)

lemma bufferAt_inside:
  "i div 8 < length (buffer_bytes s) \<Longrightarrow> bufferAt s i \<longleftrightarrow> bit (buffer_bytes s ! (i div 8)) (7 - i mod 8)"
  by (simp add: bufferAt_def js_index_def js_bit_iff)

lemma bufferAt_outside: "length (buffer_bytes s) \<le> i div 8 \<Longrightarrow> \<not> bufferAt s i"
  by (simp add: bufferAt_def js_index_def js_bit_iff)

lemma mask_bit: "k < 8 \<Longrightarrow> js_ushr 128 k = 2 ^ (7 - k)"
proof -
  assume "k < 8"
  then have "(128 :: int) div 2 ^ k = 2 ^ (7 - k)"
    using power_diff [of "2 :: int" k 7] by simp
  with \<open>k < 8\<close> show ?thesis by (simp add: js_ushr_small)
qed

lemma js_or_mask:
  assumes "is_byte x" "k < 8"
  shows "js_or x (js_ushr 128 k) = x OR 2 ^ (7 - k)" "is_byte (x OR 2 ^ (7 - k))"
proof -
  have "(2 :: int) ^ (7 - k) < 2 ^ 8" using assms(2) by (intro power_strict_increasing) auto
  then have b: "is_byte (2 ^ (7 - k))" by (simp add: is_byte_def)
  with assms show "js_or x (js_ushr 128 k) = x OR 2 ^ (7 - k)"
    by (simp add: mask_bit js_or_small is_byte_def)
  from b assms(1) show "is_byte (x OR 2 ^ (7 - k))"
    by (simp add: is_byte_take_bit)
qed

text \<open>\<open>putBit\<close> first makes room for the bit, then sets it.\<close>

definition grown :: "bit_buffer \<Rightarrow> int list" where
  "grown s = (if length (buffer_bytes s) \<le> buffer_length s div 8 then buffer_bytes s @ [0] else buffer_bytes s)"

lemma grown_facts:
  assumes "buffer_inv s"
  shows "length (grown s) = (buffer_length s + 1 + 7) div 8" "list_all is_byte (grown s)"
    "buffer_length s div 8 < length (grown s)" "is_byte (grown s ! (buffer_length s div 8))"
proof -
  from assms have inv: "length (buffer_bytes s) = (buffer_length s + 7) div 8"
      "list_all is_byte (buffer_bytes s)"
    by (simp_all add: buffer_inv_def)
  show len: "length (grown s) = (buffer_length s + 1 + 7) div 8"
    using inv(1) by (auto simp: grown_def)
  show bytes: "list_all is_byte (grown s)"
    using inv(2) by (auto simp: is_byte_def grown_def)
  show lt: "buffer_length s div 8 < length (grown s)" using len by linarith
  show "is_byte (grown s ! (buffer_length s div 8))"
    using bytes lt by (simp only: list_all_length)
qed

lemma putBit_grown:
  assumes "buffer_inv s"
  shows "putBit b s = \<lparr>buffer_bytes =
      (if b then (grown s)[buffer_length s div 8 :=
         grown s ! (buffer_length s div 8) OR 2 ^ (7 - buffer_length s mod 8)] else grown s),
      buffer_length = buffer_length s + 1\<rparr>"
  using js_or_mask(1) [OF grown_facts(4) [OF assms], of "buffer_length s mod 8"]
  by (simp add: putBit_def grown_def Let_def)

lemma bufferAt_grown: "bufferAt \<lparr>buffer_bytes = grown s, buffer_length = n\<rparr> i = bufferAt s i"
  by (auto simp: bufferAt_def js_index_def nth_append js_bit_iff grown_def)

lemma same_bit_in_byte: "i div 8 = n div 8 \<Longrightarrow> 7 - i mod 8 = 7 - n mod 8 \<longleftrightarrow> i = (n :: nat)"
proof -
  assume d: "i div 8 = n div 8"
  have "i mod 8 < 8" "n mod 8 < 8" by simp_all
  then have "7 - i mod 8 = 7 - n mod 8 \<longleftrightarrow> i mod 8 = n mod 8" by linarith
  with d show ?thesis by (metis div_mult_mod_eq)
qed

lemma bufferAt_putBit:
  assumes "buffer_inv s"
  shows "bufferAt (putBit b s) i \<longleftrightarrow> (if i = buffer_length s then b else bufferAt s i)"
proof -
  let ?n = "buffer_length s"
  let ?t = "\<lparr>buffer_bytes = grown s, buffer_length = ?n + 1\<rparr>"
  have last: "\<not> bufferAt s ?n" using assms by (simp add: buffer_inv_def)
  show ?thesis
  proof (cases "b \<and> i div 8 = ?n div 8")
    case True
    then have lt: "i div 8 < length (grown s)" using grown_facts(3) [OF assms] by simp
    have "bufferAt (putBit b s) i
        \<longleftrightarrow> bit (grown s ! (?n div 8) OR 2 ^ (7 - ?n mod 8)) (7 - i mod 8)"
      using True lt by (subst bufferAt_inside) (simp_all add: putBit_grown [OF assms])
    also have "\<dots> \<longleftrightarrow> bit (grown s ! (i div 8)) (7 - i mod 8) \<or> i = ?n"
      using True same_bit_in_byte [of i ?n] by (auto simp: bit_or_iff bit_exp_iff)
    also have "bit (grown s ! (i div 8)) (7 - i mod 8) \<longleftrightarrow> bufferAt ?t i"
      using lt by (subst bufferAt_inside) simp_all
    finally show ?thesis using True by (simp add: bufferAt_grown)
  next
    case False
    then have "bufferAt (putBit b s) i = bufferAt ?t i"
      by (auto simp: bufferAt_def js_index_def putBit_grown [OF assms])
    with False last show ?thesis by (auto simp: bufferAt_grown)
  qed
qed

lemma putBit_refines:
  assumes "buffer_inv s"
  shows "buffer_inv (putBit b s)" "buffer_bits (putBit b s) = buffer_bits s @ [b]"
proof -
  let ?n = "buffer_length s"
  note g = grown_facts [OF assms]
  have "list_all is_byte (buffer_bytes (putBit b s))"
    using g(2) js_or_mask(2) [OF g(4), of "?n mod 8"]
    by (auto simp: putBit_grown [OF assms] list_all_iff dest!: set_update_subset_insert [THEN subsetD])
  moreover have "\<And>i. ?n \<le> i \<Longrightarrow> \<not> bufferAt s i"
    using assms by (simp add: buffer_inv_def)
  ultimately show "buffer_inv (putBit b s)"
    using g(1) by (auto simp: buffer_inv_def bufferAt_putBit [OF assms])
       (simp_all add: putBit_grown [OF assms])
  have "buffer_length (putBit b s) = Suc ?n" by (simp add: putBit_grown [OF assms])
  then show "buffer_bits (putBit b s) = buffer_bits s @ [b]"
    by (simp add: buffer_bits_def bufferAt_putBit [OF assms])
qed

lemma put_refines:
  assumes "buffer_inv s" "len \<le> 32"
  shows "buffer_inv (put n len s) \<and> buffer_bits (put n len s) = buffer_bits s @ num_bits n len"
proof -
  have "k \<le> len \<Longrightarrow> buffer_inv (fold (\<lambda>i. putBit (js_bit n (len - i - 1))) [0..<k] s) \<and>
      buffer_bits (fold (\<lambda>i. putBit (js_bit n (len - i - 1))) [0..<k] s)
        = buffer_bits s @ map (\<lambda>i. bit n (len - 1 - i)) [0..<k]" for k
  proof (induction k)
    case (Suc k)
    then show ?case
      using assms(2) by (simp add: js_bit_iff putBit_refines)
  qed (simp add: assms(1))
  from this [of len] show ?thesis by (simp add: put_def num_bits_def)
qed

subsection \<open>The interface of the data writers\<close>

text \<open>
  A data segment writes itself to an object with a method \<open>put(num, length)\<close>. What it relies on
  is this contract: \<open>put\<close> keeps the sink usable and appends the low \<open>length\<close> bits of the number.
\<close>

locale bit_sink =
  fixes sink_put :: "int \<Rightarrow> nat \<Rightarrow> 's \<Rightarrow> 's"
    and sink_bits :: "'s \<Rightarrow> bool list"
    and sink_inv :: "'s \<Rightarrow> bool"
  assumes sink_inv_put: "sink_inv s \<Longrightarrow> len \<le> 32 \<Longrightarrow> sink_inv (sink_put n len s)"
    and sink_bits_put: "sink_inv s \<Longrightarrow> len \<le> 32 \<Longrightarrow>
      sink_bits (sink_put n len s) = sink_bits s @ num_bits n len"
begin

text \<open>A sequence of \<open>put\<close> calls appends the concatenation of their bits.\<close>

lemma sink_fold:
  assumes "sink_inv s" "\<forall>x\<in>set xs. w x \<le> 32"
  shows "sink_inv (fold (\<lambda>x. sink_put (v x) (w x)) xs s)"
    "sink_bits (fold (\<lambda>x. sink_put (v x) (w x)) xs s)
      = sink_bits s @ concat (map (\<lambda>x. num_bits (v x) (w x)) xs)"
  using assms by (induction xs arbitrary: s) (simp_all add: sink_inv_put sink_bits_put)

end

interpretation bb: bit_sink put buffer_bits buffer_inv
  by unfold_locales (simp_all add: put_refines)

subsection \<open>Bytes and bits\<close>

definition bytes_bits :: "int list \<Rightarrow> bool list" where
  "bytes_bits bs = concat (map (\<lambda>b. num_bits b 8) bs)"

lemma bytes_bits_nth:
  "i < 8 * length bs \<Longrightarrow> bytes_bits bs ! i \<longleftrightarrow> bit (bs ! (i div 8)) (7 - i mod 8)"
proof (induction bs arbitrary: i)
  case (Cons b bs)
  show ?case
  proof (cases "i < 8")
    case True
    then show ?thesis by (simp add: bytes_bits_def nth_append) (simp add: num_bits_def)
  next
    case False
    then obtain j where j: "i = 8 + j" by (metis le_Suc_ex not_less)
    with Cons have "bytes_bits bs ! j \<longleftrightarrow> bit (bs ! (j div 8)) (7 - j mod 8)" by simp
    with j show ?thesis by (simp add: bytes_bits_def nth_append)
  qed
qed simp

lemma length_bytes_bits [simp]: "length (bytes_bits bs) = 8 * length bs"
  by (induction bs) (simp_all add: bytes_bits_def)

lemma bytes_bits_buffer:
  assumes "buffer_inv s" "buffer_length s mod 8 = 0"
  shows "bytes_bits (buffer_bytes s) = buffer_bits s"
proof (rule nth_equalityI)
  have "length (buffer_bytes s) = (buffer_length s + 7) div 8"
    using assms(1) by (simp add: buffer_inv_def)
  with assms(2) show l: "length (bytes_bits (buffer_bytes s)) = length (buffer_bits s)"
    by simp presburger
  fix i assume "i < length (bytes_bits (buffer_bytes s))"
  moreover from this have "i div 8 < length (buffer_bytes s)" by simp
  ultimately show "bytes_bits (buffer_bytes s) ! i = buffer_bits s ! i"
    using l by (simp add: bytes_bits_nth bufferAt_inside buffer_bits_def)
qed

lemma buffer_length_put [simp]: "buffer_length (put n len s) = buffer_length s + len"
proof -
  have "buffer_length (fold (\<lambda>i. putBit (js_bit n (len - i - 1))) xs s) = buffer_length s + length xs" for xs
    by (induction xs arbitrary: s) (simp_all add: putBit_def Let_def)
  then show ?thesis by (simp add: put_def)
qed

text \<open>
  C33: a buffer is the list of its bits. \<open>put(num, length)\<close> on any buffer built by the code appends
  the \<open>length\<close> low bits of the number, most significant first, leaves the earlier bits alone and
  keeps the byte array exactly as long as the bits need; with a whole number of bytes written, the
  byte array spells the bits.
\<close>

theorem put_appends_bits:
  assumes "buffer_inv s" "len \<le> 32"
  shows "buffer_inv (put num len s) \<and> buffer_bits (put num len s) = buffer_bits s @ num_bits num len \<and>
    length (buffer_bytes (put num len s)) = (buffer_length s + len + 7) div 8 \<and>
    (buffer_length s mod 8 = 0 \<longrightarrow> bytes_bits (buffer_bytes s) = buffer_bits s)"
  using put_refines [OF assms, of num] bytes_bits_buffer [OF assms(1)]
  by (simp add: buffer_inv_def)

theorem put_appends_bits_witness:
  "buffer_inv (put 37 8 qrBitBuffer) \<and>
    buffer_bits (put 37 8 qrBitBuffer) = num_bits 37 8 \<and>
    length (buffer_bytes (put 37 8 qrBitBuffer)) = 1 \<and>
    bytes_bits (buffer_bytes qrBitBuffer) = buffer_bits qrBitBuffer"
  using put_appends_bits [OF buffer_inv_empty, of 8 37] by simp

end
