(* ===== verification/QR_Modes.thy ===== *)
theory QR_Modes
  imports QR_BitBuffer
begin

text \<open>
  The four kinds of data segments of \<open>examples/chat/vendor/qrcode.js\<close> (\<open>qrNumber\<close>,
  \<open>qrAlphaNum\<close>, \<open>qr8BitByte\<close>, \<open>qrKanji\<close>), their modes and length fields. A segment's \<open>write\<close>
  calls only \<open>put\<close> of the object it is given, so the writers take that method as an argument and
  their correctness is proved once for every \<open>bit_sink\<close>.
\<close>

subsection \<open>Modes\<close>

definition MODE_NUMBER :: int where "MODE_NUMBER = js_shl 1 0"

definition MODE_ALPHA_NUM :: int where "MODE_ALPHA_NUM = js_shl 1 1"

definition MODE_8BIT_BYTE :: int where "MODE_8BIT_BYTE = js_shl 1 2"

definition MODE_KANJI :: int where "MODE_KANJI = js_shl 1 3"

lemma mode_values [simp]:
  "MODE_NUMBER = 1" "MODE_ALPHA_NUM = 2" "MODE_8BIT_BYTE = 4" "MODE_KANJI = 8"
  by (simp_all add: MODE_NUMBER_def MODE_ALPHA_NUM_def MODE_8BIT_BYTE_def MODE_KANJI_def js_shl_small)

definition getLengthInBits :: "int \<Rightarrow> int \<Rightarrow> nat result" where
  "getLengthInBits mode type =
     (if 1 \<le> type \<and> type < 10 then
        if mode = MODE_NUMBER then Inr 10
        else if mode = MODE_ALPHA_NUM then Inr 9
        else if mode = MODE_8BIT_BYTE then Inr 8
        else if mode = MODE_KANJI then Inr 8
        else Inl (BadMode mode)
      else if type < 27 then
        if mode = MODE_NUMBER then Inr 12
        else if mode = MODE_ALPHA_NUM then Inr 11
        else if mode = MODE_8BIT_BYTE then Inr 16
        else if mode = MODE_KANJI then Inr 10
        else Inl (BadMode mode)
      else if type < 41 then
        if mode = MODE_NUMBER then Inr 14
        else if mode = MODE_ALPHA_NUM then Inr 13
        else if mode = MODE_8BIT_BYTE then Inr 16
        else if mode = MODE_KANJI then Inr 12
        else Inl (BadMode mode)
      else Inl (BadType type))"

subsection \<open>Segments\<close>

datatype qr_data =
    QrNumber jsstring
  | QrAlphaNum jsstring
  | Qr8BitByte "int list"
  | QrKanji "int list"

fun getMode :: "qr_data \<Rightarrow> int" where
  "getMode (QrNumber _) = MODE_NUMBER"
| "getMode (QrAlphaNum _) = MODE_ALPHA_NUM"
| "getMode (Qr8BitByte _) = MODE_8BIT_BYTE"
| "getMode (QrKanji _) = MODE_KANJI"

fun getLength :: "qr_data \<Rightarrow> nat" where
  "getLength (QrNumber data) = length data"
| "getLength (QrAlphaNum data) = length data"
| "getLength (Qr8BitByte bytes) = length bytes"
| "getLength (QrKanji bytes) = length bytes div 2"

definition chatToNum :: "16 word \<Rightarrow> int result" where
  "chatToNum c = (if 0x30 \<le> c \<and> c \<le> 0x39 then Inr (uint c - 0x30) else Inl (IllegalChar c))"

definition strToNum :: "jsstring \<Rightarrow> int result" where
  "strToNum s = rfold (\<lambda>c num. rbind (chatToNum c) (\<lambda>d. Inr (num * 10 + d))) s 0"

fun qrNumber_write :: "(int \<Rightarrow> nat \<Rightarrow> 's \<Rightarrow> 's) \<Rightarrow> jsstring \<Rightarrow> 's \<Rightarrow> 's result" where
  "qrNumber_write bput (a # b # c # data) s =
     rbind (strToNum [a, b, c]) (\<lambda>n. qrNumber_write bput data (bput n 10 s))"
| "qrNumber_write bput [a] s = rbind (strToNum [a]) (\<lambda>n. Inr (bput n 4 s))"
| "qrNumber_write bput [a, b] s = rbind (strToNum [a, b]) (\<lambda>n. Inr (bput n 7 s))"
| "qrNumber_write bput [] s = Inr s"

definition getCode :: "16 word \<Rightarrow> int result" where
  "getCode c =
     (if 0x30 \<le> c \<and> c \<le> 0x39 then Inr (uint c - 0x30)
      else if 0x41 \<le> c \<and> c \<le> 0x5A then Inr (uint c - 0x41 + 10)
      else if c = 0x20 then Inr 36
      else if c = 0x24 then Inr 37
      else if c = 0x25 then Inr 38
      else if c = 0x2A then Inr 39
      else if c = 0x2B then Inr 40
      else if c = 0x2D then Inr 41
      else if c = 0x2E then Inr 42
      else if c = 0x2F then Inr 43
      else if c = 0x3A then Inr 44
      else Inl (IllegalChar c))"

fun qrAlphaNum_write :: "(int \<Rightarrow> nat \<Rightarrow> 's \<Rightarrow> 's) \<Rightarrow> jsstring \<Rightarrow> 's \<Rightarrow> 's result" where
  "qrAlphaNum_write bput (a # b # data) s =
     rbind (getCode a) (\<lambda>x. rbind (getCode b) (\<lambda>y. qrAlphaNum_write bput data (bput (x * 45 + y) 11 s)))"
| "qrAlphaNum_write bput [a] s = rbind (getCode a) (\<lambda>x. Inr (bput x 6 s))"
| "qrAlphaNum_write bput [] s = Inr s"

definition qr8BitByte_write :: "(int \<Rightarrow> nat \<Rightarrow> 's \<Rightarrow> 's) \<Rightarrow> int list \<Rightarrow> 's \<Rightarrow> 's" where
  "qr8BitByte_write bput bytes s = fold (\<lambda>b. bput b 8) bytes s"

text \<open>\<open>i\<close> is the position in the whole byte array, which the error names.\<close>

fun qrKanji_write :: "(int \<Rightarrow> nat \<Rightarrow> 's \<Rightarrow> 's) \<Rightarrow> nat \<Rightarrow> int list \<Rightarrow> 's \<Rightarrow> 's result" where
  "qrKanji_write bput i (a # b # data) s =
     (let c = js_or (js_shl (js_and 0xff a) 8) (js_and 0xff b) in
      rbind (if 0x8140 \<le> c \<and> c \<le> 0x9FFC then Inr (c - 0x8140)
             else if 0xE040 \<le> c \<and> c \<le> 0xEBBF then Inr (c - 0xC140)
             else Inl (IllegalCharAt (i + 1) (Some c)))
        (\<lambda>c. let c' = js_and (js_ushr c 8) 0xff * 0xC0 + js_and c 0xff
             in qrKanji_write bput (i + 2) data (bput c' 13 s)))"
| "qrKanji_write bput i [a] s = Inl (IllegalCharAt (i + 1) None)"
| "qrKanji_write bput i [] s = Inr s"

fun data_write :: "(int \<Rightarrow> nat \<Rightarrow> 's \<Rightarrow> 's) \<Rightarrow> qr_data \<Rightarrow> 's \<Rightarrow> 's result" where
  "data_write bput (QrNumber data) s = qrNumber_write bput data s"
| "data_write bput (QrAlphaNum data) s = qrAlphaNum_write bput data s"
| "data_write bput (Qr8BitByte bytes) s = Inr (qr8BitByte_write bput bytes s)"
| "data_write bput (QrKanji bytes) s = qrKanji_write bput 0 bytes s"

subsection \<open>Reading bits back\<close>

text \<open>The reference decoder of each segment: it takes the number of characters and the bits.\<close>

definition bits_num :: "bool list \<Rightarrow> int" where
  "bits_num bs = foldl (\<lambda>n b. 2 * n + of_bool b) 0 bs"

definition digit_char :: "int \<Rightarrow> 16 word" where
  "digit_char d = word_of_int (d + 0x30)"

fun read_number :: "nat \<Rightarrow> bool list \<Rightarrow> jsstring \<times> bool list" where
  "read_number (Suc (Suc (Suc n))) bs =
     (let v = bits_num (take 10 bs); (ds, rest) = read_number n (drop 10 bs)
      in (digit_char (v div 100) # digit_char (v div 10 mod 10) # digit_char (v mod 10) # ds, rest))"
| "read_number (Suc (Suc 0)) bs =
     (let v = bits_num (take 7 bs) in ([digit_char (v div 10), digit_char (v mod 10)], drop 7 bs))"
| "read_number (Suc 0) bs = ([digit_char (bits_num (take 4 bs))], drop 4 bs)"
| "read_number 0 bs = ([], bs)"

definition ALPHANUM :: jsstring where
  "ALPHANUM = map word_of_int
     ([0x30, 0x31, 0x32, 0x33, 0x34, 0x35, 0x36, 0x37, 0x38, 0x39] @
      [0x41, 0x42, 0x43, 0x44, 0x45, 0x46, 0x47, 0x48, 0x49, 0x4A, 0x4B, 0x4C, 0x4D,
       0x4E, 0x4F, 0x50, 0x51, 0x52, 0x53, 0x54, 0x55, 0x56, 0x57, 0x58, 0x59, 0x5A] @
      [0x20, 0x24, 0x25, 0x2A, 0x2B, 0x2D, 0x2E, 0x2F, 0x3A])"

fun read_alphanum :: "nat \<Rightarrow> bool list \<Rightarrow> jsstring \<times> bool list" where
  "read_alphanum (Suc (Suc n)) bs =
     (let v = bits_num (take 11 bs); (cs, rest) = read_alphanum n (drop 11 bs)
      in (ALPHANUM ! nat (v div 45) # ALPHANUM ! nat (v mod 45) # cs, rest))"
| "read_alphanum (Suc 0) bs = ([ALPHANUM ! nat (bits_num (take 6 bs))], drop 6 bs)"
| "read_alphanum 0 bs = ([], bs)"

fun read_bytes :: "nat \<Rightarrow> bool list \<Rightarrow> int list \<times> bool list" where
  "read_bytes (Suc n) bs = (let (xs, rest) = read_bytes n (drop 8 bs) in (bits_num (take 8 bs) # xs, rest))"
| "read_bytes 0 bs = ([], bs)"

fun read_kanji :: "nat \<Rightarrow> bool list \<Rightarrow> int list \<times> bool list" where
  "read_kanji (Suc n) bs =
     (let v = bits_num (take 13 bs); c = v div 0xC0 * 256 + v mod 0xC0;
          c' = (if c < 0x1F00 then c + 0x8140 else c + 0xC140);
          (xs, rest) = read_kanji n (drop 13 bs)
      in (c' div 256 # c' mod 256 # xs, rest))"
| "read_kanji 0 bs = ([], bs)"

subsection \<open>Numbers and their bits\<close>

lemma bits_num_Cons: "bits_num (b # bs) = of_bool b * 2 ^ length bs + bits_num bs"
proof -
  have "foldl (\<lambda>n b. 2 * n + of_bool b) a bs = a * 2 ^ length bs + bits_num bs" for a :: int
    unfolding bits_num_def
  proof (induction bs arbitrary: a)
    case (Cons c bs)
    from Cons [of "2 * a + of_bool c"] Cons [of "of_bool c"] show ?case
      by (simp add: algebra_simps)
  qed simp
  from this [of "of_bool b"] show ?thesis by (simp add: bits_num_def)
qed

lemma bits_num_Nil [simp]: "bits_num [] = 0"
  by (simp add: bits_num_def)

lemma bits_num_num_bits: "bits_num (num_bits n len) = take_bit len n"
proof (induction len)
  case (Suc len)
  then show ?case
    by (simp add: num_bits_Suc bits_num_Cons take_bit_Suc_from_most)
qed simp

lemma bits_num_read:
  "0 \<le> n \<Longrightarrow> n < 2 ^ len \<Longrightarrow> bits_num (num_bits n len) = n"
  by (simp add: bits_num_num_bits take_bit_int_eq_self)

subsection \<open>Characters\<close>

definition is_digit :: "16 word \<Rightarrow> bool" where
  "is_digit c \<longleftrightarrow> 0x30 \<le> c \<and> c \<le> 0x39"

lemma chatToNum_digit:
  assumes "is_digit c"
  obtains d where "chatToNum c = Inr d" "0 \<le> d" "d \<le> 9" "digit_char d = c"
proof
  have "0x30 \<le> uint c" "uint c \<le> 0x39"
    using assms by (simp_all add: is_digit_def word_le_def)
  then show "0 \<le> uint c - 0x30" "uint c - 0x30 \<le> 9" by simp_all
  show "chatToNum c = Inr (uint c - 0x30)" using assms by (simp add: chatToNum_def is_digit_def)
  show "digit_char (uint c - 0x30) = c" by (simp add: digit_char_def)
qed

lemma chatToNum_illegal: "\<not> is_digit c \<Longrightarrow> chatToNum c = Inl (IllegalChar c)"
  by (auto simp: chatToNum_def is_digit_def)

lemma ALPHANUM_getCode: "list_all (\<lambda>i. getCode (ALPHANUM ! i) = Inr (int i)) [0..<45]"
  by (simp add: ALPHANUM_def getCode_def upt_rec)

lemma getCode_ALPHANUM:
  assumes "c \<in> set ALPHANUM"
  obtains i where "getCode c = Inr (int i)" "i < 45" "ALPHANUM ! i = c"
proof -
  from assms obtain i where i: "i < length ALPHANUM" "ALPHANUM ! i = c"
    by (auto simp: in_set_conv_nth)
  then have "i < 45" by (simp add: ALPHANUM_def)
  with i ALPHANUM_getCode show ?thesis
    using that by (auto simp: list_all_iff)
qed

lemma word_interval_list:
  fixes c :: "16 word"
  assumes "word_of_int a \<le> c" "c \<le> word_of_int b" "0 \<le> a" "b < 65536" "a \<le> b"
  shows "c \<in> word_of_int ` {a..b}"
proof -
  have "a \<le> uint c" "uint c \<le> b"
    using assms by (simp_all add: word_le_def uint_word_of_int)
  then show ?thesis by (intro image_eqI [of _ _ "uint c"]) simp_all
qed

lemma getCode_illegal:
  assumes "c \<notin> set ALPHANUM"
  shows "getCode c = Inl (IllegalChar c)"
proof -
  have sub: "word_of_int ` {0x30..0x39} \<subseteq> set ALPHANUM" "word_of_int ` {0x41..0x5A} \<subseteq> set ALPHANUM"
    unfolding set_upto [symmetric] ALPHANUM_def by simp_all
  have "\<not> (0x30 \<le> c \<and> c \<le> 0x39)" "\<not> (0x41 \<le> c \<and> c \<le> 0x5A)"
    using word_interval_list [of 48 c 57] word_interval_list [of 65 c 90] sub assms by auto
  with assms show ?thesis
    by (auto simp: getCode_def ALPHANUM_def)
qed

subsection \<open>Correctness of the writers on any sink\<close>

fun kanji_pairs :: "int list \<Rightarrow> bool" where
  "kanji_pairs (a # b # data) \<longleftrightarrow> is_byte a \<and> 0x40 \<le> b \<and> b < 0x100 \<and>
     (0x8140 \<le> a * 256 + b \<and> a * 256 + b \<le> 0x9FFC \<or> 0xE040 \<le> a * 256 + b \<and> a * 256 + b \<le> 0xEBBF) \<and>
     kanji_pairs data"
| "kanji_pairs [a] \<longleftrightarrow> False"
| "kanji_pairs [] \<longleftrightarrow> True"

text \<open>The payloads each mode accepts, and the bits a payload takes.\<close>

fun valid_data :: "qr_data \<Rightarrow> bool" where
  "valid_data (QrNumber data) \<longleftrightarrow> list_all is_digit data"
| "valid_data (QrAlphaNum data) \<longleftrightarrow> list_all (\<lambda>c. c \<in> set ALPHANUM) data"
| "valid_data (Qr8BitByte bytes) \<longleftrightarrow> list_all is_byte bytes"
| "valid_data (QrKanji bytes) \<longleftrightarrow> kanji_pairs bytes"

fun payload_bits :: "qr_data \<Rightarrow> nat" where
  "payload_bits (QrNumber data) = 10 * (length data div 3) + (case length data mod 3 of 0 \<Rightarrow> 0 | Suc 0 \<Rightarrow> 4 | _ \<Rightarrow> 7)"
| "payload_bits (QrAlphaNum data) = 11 * (length data div 2) + 6 * (length data mod 2)"
| "payload_bits (Qr8BitByte bytes) = 8 * length bytes"
| "payload_bits (QrKanji bytes) = 13 * (length bytes div 2)"

fun read_data :: "qr_data \<Rightarrow> nat \<Rightarrow> bool list \<Rightarrow> qr_data \<times> bool list" where
  "read_data (QrNumber _) n bs = map_prod QrNumber id (read_number n bs)"
| "read_data (QrAlphaNum _) n bs = map_prod QrAlphaNum id (read_alphanum n bs)"
| "read_data (Qr8BitByte _) n bs = map_prod Qr8BitByte id (read_bytes n bs)"
| "read_data (QrKanji _) n bs = map_prod QrKanji id (read_kanji n bs)"

lemma kanji_code:
  assumes "is_byte a" "is_byte b"
  shows "js_or (js_shl (js_and 0xff a) 8) (js_and 0xff b) = a * 256 + b"
proof -
  have mask: "js_and 0xff x = x" if "is_byte x" for x
    using that js_and_255 [of x] by (simp add: js_and_def and.commute is_byte_def)
  have "push_bit 8 a OR b = push_bit 8 a + b"
  proof (rule disjunctive_add [symmetric])
    fix n
    from assms(2) have "take_bit 8 b = b" by (simp add: is_byte_take_bit)
    then show "\<not> bit (push_bit 8 a) n \<or> \<not> bit b n"
      by (metis bit_push_bit_iff bit_take_bit_iff not_le)
  qed
  then show ?thesis
    using assms by (simp add: mask js_shl_small js_or_small is_byte_def push_bit_eq_mult mult.commute)
qed

lemma three_digits:
  fixes x y z :: int
  assumes "0 \<le> x" "x \<le> 9" "0 \<le> y" "y \<le> 9" "0 \<le> z" "z \<le> 9"
  shows "(x * 100 + y * 10 + z) div 100 = x" "(x * 100 + y * 10 + z) div 10 mod 10 = y"
    "(x * 100 + y * 10 + z) mod 10 = z" "0 \<le> x * 100 + y * 10 + z" "x * 100 + y * 10 + z < 1024"
proof -
  show "(x * 100 + y * 10 + z) div 100 = x"
    by (rule int_div_pos_eq [where r = "y * 10 + z"]) (use assms in auto)
  have "(x * 100 + y * 10 + z) div 10 = x * 10 + y"
    by (rule int_div_pos_eq [where r = z]) (use assms in auto)
  moreover have "(x * 10 + y) mod 10 = y"
    by (rule int_mod_pos_eq [where q = x]) (use assms in auto)
  ultimately show "(x * 100 + y * 10 + z) div 10 mod 10 = y" by simp
  show "(x * 100 + y * 10 + z) mod 10 = z"
    by (rule int_mod_pos_eq [where q = "x * 10 + y"]) (use assms in auto)
qed (use assms in auto)

lemma two_digits:
  fixes x y :: int
  assumes "0 \<le> x" "x < k" "0 \<le> y" "y < k"
  shows "(x * k + y) div k = x" "(x * k + y) mod k = y" "0 \<le> x * k + y" "x * k + y < k * k"
proof -
  show "(x * k + y) div k = x"
    by (rule int_div_pos_eq [where r = y]) (use assms in auto)
  show "(x * k + y) mod k = y"
    by (rule int_mod_pos_eq [where q = x]) (use assms in auto)
  show "0 \<le> x * k + y" using assms by simp
  have "x * k \<le> (k - 1) * k" using assms by (intro mult_right_mono) auto
  then show "x * k + y < k * k" using assms by (simp add: algebra_simps)
qed

lemma digitsE:
  assumes "list_all is_digit (a # cs)"
  obtains x where "chatToNum a = Inr x" "0 \<le> x" "x \<le> 9" "digit_char x = a" "list_all is_digit cs"
  using assms chatToNum_digit [of a] by auto

text \<open>A double-byte character is offset into a dense range and its bytes combined in base 192.\<close>

lemma kanji_char:
  assumes "is_byte a" "is_byte b" "0x40 \<le> b"
    and range: "0x8140 \<le> a * 256 + b \<and> a * 256 + b \<le> 0x9FFC \<or> 0xE040 \<le> a * 256 + b \<and> a * 256 + b \<le> 0xEBBF"
  obtains c v where
    "(if 0x8140 \<le> a * 256 + b \<and> a * 256 + b \<le> 0x9FFC then Inr (a * 256 + b - 0x8140)
      else if 0xE040 \<le> a * 256 + b \<and> a * 256 + b \<le> 0xEBBF then Inr (a * 256 + b - 0xC140)
      else Inl e) = Inr c"
    "js_and (js_ushr c 8) 0xff * 0xC0 + js_and c 0xff = v" "0 \<le> v" "v < 2 ^ 13"
    "v div 0xC0 * 256 + v mod 0xC0 = c" "(if c < 0x1F00 then c + 0x8140 else c + 0xC140) = a * 256 + b"
proof -
  obtain off :: int where off: "off = 0x81 \<and> a * 256 + b \<le> 0x9FFC \<or> off = 0xC1 \<and> \<not> a * 256 + b \<le> 0x9FFC"
    by blast
  obtain h l where hl: "h = a - off" "l = b - 0x40" by blast
  have "a \<le> 234 \<or> a = 235" using range assms by (auto simp: is_byte_def)
  then have h: "0 \<le> h" "h < 192" "0 \<le> l" "l < 192" "h * 192 + l < 2 ^ 13"
    using range off assms unfolding hl by (auto simp: is_byte_def)
  then have h8: "h < 256" "l < 256" by simp_all
  note n = two_digits [OF h(1-4)] and n8 = two_digits [OF h(1) h8(1) h(3) h8(2)]
  have "js_and (js_ushr (h * 256 + l) 8) 0xff = h"
    using n8 h(1) h8(1) by (subst js_ushr_small) (simp_all only: js_and_255, simp_all)
  then have "js_and (js_ushr (h * 256 + l) 8) 0xff * 0xC0 + js_and (h * 256 + l) 0xff = h * 192 + l"
    using n8(2) by (simp only: js_and_255)
  moreover have "(if h * 256 + l < 0x1F00 then h * 256 + l + 0x8140 else h * 256 + l + 0xC140) = a * 256 + b"
    using range off unfolding hl by auto
  moreover have "(if 0x8140 \<le> a * 256 + b \<and> a * 256 + b \<le> 0x9FFC then Inr (a * 256 + b - 0x8140)
      else if 0xE040 \<le> a * 256 + b \<and> a * 256 + b \<le> 0xEBBF then Inr (a * 256 + b - 0xC140)
      else Inl e) = Inr (h * 256 + l)"
    using range off unfolding hl by auto
  ultimately show ?thesis
    using that [of "h * 256 + l" "h * 192 + l"] n h(5) by simp
qed

context bit_sink
begin

lemma sink_put1:
  assumes "sink_inv s" "len \<le> 32"
  shows "sink_inv (sink_put n len s)" "sink_bits (sink_put n len s) = sink_bits s @ num_bits n len"
  using assms by (simp_all add: sink_inv_put sink_bits_put)

lemma number_write:
  "list_all is_digit data \<Longrightarrow> sink_inv s \<Longrightarrow>
   \<exists>s' bs. qrNumber_write sink_put data s = Inr s' \<and> sink_inv s' \<and> sink_bits s' = sink_bits s @ bs \<and>
     length bs = payload_bits (QrNumber data) \<and> (\<forall>rest. read_number (length data) (bs @ rest) = (data, rest))"
proof (induction data arbitrary: s rule: list_triple_induct)
  case (Triple a b c data)
  obtain x where x: "chatToNum a = Inr x" "0 \<le> x" "x \<le> 9" "digit_char x = a"
      and bc: "list_all is_digit (b # c # data)"
    using Triple.prems(1) by (rule digitsE)
  obtain y where y: "chatToNum b = Inr y" "0 \<le> y" "y \<le> 9" "digit_char y = b"
      and c: "list_all is_digit (c # data)"
    using bc by (rule digitsE)
  obtain z where z: "chatToNum c = Inr z" "0 \<le> z" "z \<le> 9" "digit_char z = c"
      and data: "list_all is_digit data"
    using c by (rule digitsE)
  let ?n = "x * 100 + y * 10 + z"
  note n = three_digits [OF x(2,3) y(2,3) z(2,3)]
  have bn: "bits_num (num_bits ?n 10) = ?n"
    by (rule bits_num_read) (use n in simp_all)
  have num: "strToNum [a, b, c] = Inr ?n"
    using x y z by (simp add: strToNum_def algebra_simps)
  have "sink_inv (sink_put ?n 10 s)" using Triple.prems(2) by (simp add: sink_put1)
  from Triple.IH [OF data this] obtain s' bs where
      "qrNumber_write sink_put data (sink_put ?n 10 s) = Inr s'" "sink_inv s'"
      "sink_bits s' = sink_bits (sink_put ?n 10 s) @ bs" "length bs = payload_bits (QrNumber data)"
      "\<forall>rest. read_number (length data) (bs @ rest) = (data, rest)"
    by blast
  then show ?case
    using n(1-3) bn num x(4) y(4) z(4) Triple.prems(2)
    by (intro exI [of _ s'] exI [of _ "num_bits ?n 10 @ bs"]) (simp add: sink_put1 Let_def)
next
  case (Single a)
  obtain x where x: "chatToNum a = Inr x" "0 \<le> x" "x \<le> 9" "digit_char x = a"
    using Single.prems(1) by (rule digitsE)
  then have "bits_num (num_bits x 4) = x"
    by (intro bits_num_read) simp_all
  with x Single.prems(2) show ?case by (simp add: strToNum_def sink_put1)
next
  case (Double a b)
  obtain x where x: "chatToNum a = Inr x" "0 \<le> x" "x \<le> 9" "digit_char x = a"
      and b: "list_all is_digit [b]"
    using Double.prems(1) by (rule digitsE)
  obtain y where y: "chatToNum b = Inr y" "0 \<le> y" "y \<le> 9" "digit_char y = b"
    using b by (rule digitsE)
  have n: "(x * 10 + y) div 10 = x" "(x * 10 + y) mod 10 = y" "0 \<le> x * 10 + y" "x * 10 + y < 10 * 10"
    using x y by (intro two_digits; simp)+
  then have "bits_num (num_bits (x * 10 + y) 7) = x * 10 + y"
    by (intro bits_num_read) simp_all
  with n(1,2) x y Double.prems(2) show ?case by (simp add: strToNum_def sink_put1 Let_def)
qed simp

lemma alphanum_write:
  "list_all (\<lambda>c. c \<in> set ALPHANUM) data \<Longrightarrow> sink_inv s \<Longrightarrow>
   \<exists>s' bs. qrAlphaNum_write sink_put data s = Inr s' \<and> sink_inv s' \<and> sink_bits s' = sink_bits s @ bs \<and>
     length bs = payload_bits (QrAlphaNum data) \<and> (\<forall>rest. read_alphanum (length data) (bs @ rest) = (data, rest))"
proof (induction data arbitrary: s rule: list_pair_induct)
  case (Pair a b data)
  obtain i where i: "getCode a = Inr (int i)" "i < 45" "ALPHANUM ! i = a"
    using Pair.prems(1) getCode_ALPHANUM [of a] by auto
  obtain j where j: "getCode b = Inr (int j)" "j < 45" "ALPHANUM ! j = b"
    using Pair.prems(1) getCode_ALPHANUM [of b] by auto
  let ?n = "int i * 45 + int j"
  have n: "?n div 45 = int i" "?n mod 45 = int j" "0 \<le> ?n" "?n < 45 * 45"
    using i j by (intro two_digits; simp)+
  have bn: "bits_num (num_bits ?n 11) = ?n"
    by (rule bits_num_read) (use n in simp_all)
  have "sink_inv (sink_put ?n 11 s)" using Pair.prems(2) by (simp add: sink_put1)
  with Pair.IH [of "sink_put ?n 11 s"] Pair.prems(1) obtain s' bs where
      "qrAlphaNum_write sink_put data (sink_put ?n 11 s) = Inr s'" "sink_inv s'"
      "sink_bits s' = sink_bits (sink_put ?n 11 s) @ bs" "length bs = payload_bits (QrAlphaNum data)"
      "\<forall>rest. read_alphanum (length data) (bs @ rest) = (data, rest)"
    by auto
  then show ?case
    using n(1,2) bn i j Pair.prems(2)
    by (intro exI [of _ s'] exI [of _ "num_bits ?n 11 @ bs"]) (simp add: sink_put1 Let_def)
next
  case (Single a)
  obtain i where i: "getCode a = Inr (int i)" "i < 45" "ALPHANUM ! i = a"
    using Single.prems(1) getCode_ALPHANUM [of a] by auto
  then have "bits_num (num_bits (int i) 6) = int i"
    by (intro bits_num_read) simp_all
  with i Single.prems(2) show ?case by (simp add: sink_put1)
qed simp

lemma byte_write:
  "list_all is_byte bytes \<Longrightarrow> sink_inv s \<Longrightarrow>
   \<exists>s' bs. qr8BitByte_write sink_put bytes s = s' \<and> sink_inv s' \<and> sink_bits s' = sink_bits s @ bs \<and>
     length bs = 8 * length bytes \<and> (\<forall>rest. read_bytes (length bytes) (bs @ rest) = (bytes, rest))"
proof (induction bytes arbitrary: s)
  case Nil
  then show ?case by (simp add: qr8BitByte_write_def)
next
  case (Cons b bytes)
  have "sink_inv (sink_put b 8 s)" using Cons.prems(2) by (simp add: sink_put1)
  with Cons.IH [of "sink_put b 8 s"] Cons.prems(1) obtain s' bs where
      "qr8BitByte_write sink_put bytes (sink_put b 8 s) = s'" "sink_inv s'"
      "sink_bits s' = sink_bits (sink_put b 8 s) @ bs" "length bs = 8 * length bytes"
      "\<forall>rest. read_bytes (length bytes) (bs @ rest) = (bytes, rest)"
    by auto
  moreover have "bits_num (num_bits b 8) = b"
    using Cons.prems(1) by (intro bits_num_read) (simp_all add: is_byte_def)
  ultimately show ?case
    using Cons.prems(2)
    by (intro exI [of _ s'] exI [of _ "num_bits b 8 @ bs"]) (simp add: sink_put1 qr8BitByte_write_def Let_def)
qed

lemma kanji_write:
  "kanji_pairs bytes \<Longrightarrow> sink_inv s \<Longrightarrow>
   \<exists>s' bs. qrKanji_write sink_put i bytes s = Inr s' \<and> sink_inv s' \<and> sink_bits s' = sink_bits s @ bs \<and>
     length bs = payload_bits (QrKanji bytes) \<and>
     (\<forall>rest. read_kanji (length bytes div 2) (bs @ rest) = (bytes, rest))"
proof (induction bytes arbitrary: s i rule: list_pair_induct)
  case (Pair a b data)
  then have ab: "is_byte a" "is_byte b" "0x40 \<le> b" and data: "kanji_pairs data"
      and range: "0x8140 \<le> a * 256 + b \<and> a * 256 + b \<le> 0x9FFC \<or> 0xE040 \<le> a * 256 + b \<and> a * 256 + b \<le> 0xEBBF"
    by (simp_all add: is_byte_def)
  note char = kanji_char [OF ab range, of "IllegalCharAt (i + 1) (Some (a * 256 + b))"]
  show ?case
  proof (rule char)
    fix c v
    assume c: "(if 0x8140 \<le> a * 256 + b \<and> a * 256 + b \<le> 0x9FFC then Inr (a * 256 + b - 0x8140)
        else if 0xE040 \<le> a * 256 + b \<and> a * 256 + b \<le> 0xEBBF then Inr (a * 256 + b - 0xC140)
        else Inl (IllegalCharAt (i + 1) (Some (a * 256 + b)))) = Inr c"
      and v: "js_and (js_ushr c 8) 0xff * 0xC0 + js_and c 0xff = v" "0 \<le> v" "v < 2 ^ 13"
        "v div 0xC0 * 256 + v mod 0xC0 = c"
      and restore: "(if c < 0x1F00 then c + 0x8140 else c + 0xC140) = a * 256 + b"
    have "sink_inv (sink_put v 13 s)" using Pair.prems(2) by (simp add: sink_put1)
    with Pair.IH [OF data, of "sink_put v 13 s" "i + 2"] obtain s' bs where
        rec: "qrKanji_write sink_put (i + 2) data (sink_put v 13 s) = Inr s'" "sink_inv s'"
        "sink_bits s' = sink_bits (sink_put v 13 s) @ bs" "length bs = payload_bits (QrKanji data)"
        "\<forall>rest. read_kanji (length data div 2) (bs @ rest) = (data, rest)"
      by blast
    have "qrKanji_write sink_put i (a # b # data) s = Inr s'"
      using rec(1) by (simp only: qrKanji_write.simps kanji_code [OF ab(1,2)] Let_def c rbind_Inr v)
    moreover have d: "(a * 256 + b) div 256 = a" "(a * 256 + b) mod 256 = b"
      using ab(1,2) two_digits [of a 256 b] by (simp_all add: is_byte_def)
    have "read_kanji (Suc (length data div 2)) (num_bits v 13 @ bs @ rest) = (a # b # data, rest)" for rest
    proof -
      have "take 13 (num_bits v 13 @ bs @ rest) = num_bits v 13" "drop 13 (num_bits v 13 @ bs @ rest) = bs @ rest"
        by simp_all
      with rec(5) bits_num_read [OF v(2,3)] show ?thesis
        by (simp only: read_kanji.simps Let_def v(4) restore d prod.case)
    qed
    ultimately show ?thesis
      using rec Pair.prems(2)
      by (intro exI [of _ s'] exI [of _ "num_bits v 13 @ bs"]) (simp add: sink_put1 del: qrKanji_write.simps read_kanji.simps)
  qed
qed simp_all

text \<open>One statement for the four kinds.\<close>

lemma write_read:
  assumes "valid_data d" "sink_inv s"
  shows "\<exists>s' bs. data_write sink_put d s = Inr s' \<and> sink_inv s' \<and> sink_bits s' = sink_bits s @ bs \<and>
     length bs = payload_bits d \<and> (\<forall>rest. read_data d (getLength d) (bs @ rest) = (d, rest))"
proof (cases d)
  case (QrNumber data)
  with number_write [of data s] assms show ?thesis by auto
next
  case (QrAlphaNum data)
  with alphanum_write [of data s] assms show ?thesis by auto
next
  case (Qr8BitByte bytes)
  with byte_write [of bytes s] assms show ?thesis by auto
next
  case (QrKanji bytes)
  with kanji_write [of bytes s 0] assms show ?thesis by auto
qed

end

text \<open>
  C30: every segment whose payload its mode allows (digits; the 45 alphanumeric characters; bytes;
  Shift-JIS pairs) writes itself to the bit buffer without an error, takes exactly the bits the
  standard gives its mode, and the reference decoder of the mode, given the character count, reads
  the same payload back and stops right behind it.
\<close>

theorem data_write_roundtrip:
  assumes "valid_data d" "buffer_inv s"
  shows "\<exists>s' bs. data_write put d s = Inr s' \<and> buffer_inv s' \<and> buffer_bits s' = buffer_bits s @ bs \<and>
     length bs = payload_bits d \<and> (\<forall>rest. read_data d (getLength d) (bs @ rest) = (d, rest))"
  using assms by (rule bb.write_read)

theorem data_write_roundtrip_witness:
  "\<exists>s' bs. data_write put (QrAlphaNum [0x51, 0x52, 0x2D]) qrBitBuffer = Inr s' \<and> buffer_inv s' \<and>
     buffer_bits s' = buffer_bits qrBitBuffer @ bs \<and>
     length bs = payload_bits (QrAlphaNum [0x51, 0x52, 0x2D]) \<and>
     (\<forall>rest. read_data (QrAlphaNum [0x51, 0x52, 0x2D]) (getLength (QrAlphaNum [0x51, 0x52, 0x2D])) (bs @ rest)
       = (QrAlphaNum [0x51, 0x52, 0x2D], rest))"
  by (rule data_write_roundtrip) (simp_all add: ALPHANUM_def)

subsection \<open>Illegal characters\<close>

lemma chatToNum_is_digit: "is_digit c \<Longrightarrow> chatToNum c = Inr (uint c - 0x30)"
  by (simp add: chatToNum_def is_digit_def)

lemma number_write_illegal:
  "find (\<lambda>c. \<not> is_digit c) data = Some c \<Longrightarrow> qrNumber_write bput data s = Inl (IllegalChar c)"
  by (induction data arbitrary: s rule: list_triple_induct)
     (auto simp: strToNum_def chatToNum_is_digit chatToNum_illegal split: if_splits)

lemma getCode_legal: "c \<in> set ALPHANUM \<Longrightarrow> \<exists>v. getCode c = Inr v"
  by (metis getCode_ALPHANUM)

lemma alphanum_write_illegal:
  "find (\<lambda>c. c \<notin> set ALPHANUM) data = Some c \<Longrightarrow> qrAlphaNum_write bput data s = Inl (IllegalChar c)"
proof (induction data arbitrary: s rule: list_pair_induct)
  case (Pair a b xs)
  then show ?case
    using getCode_legal [of a] getCode_legal [of b]
    by (auto simp: getCode_illegal split: if_splits)
qed (auto simp: getCode_illegal split: if_splits)

text \<open>
  C40: a numeric or alphanumeric segment with a character outside its alphabet throws
  \<open>illegal char\<close>, and the error names the first such character, whatever it was writing to.
\<close>

theorem data_write_illegal_char:
  assumes "d = QrNumber data \<and> find (\<lambda>c. \<not> is_digit c) data = Some c \<or>
    d = QrAlphaNum data \<and> find (\<lambda>c. c \<notin> set ALPHANUM) data = Some c"
  shows "data_write bput d s = Inl (IllegalChar c)"
  using assms by (auto simp: number_write_illegal alphanum_write_illegal)

theorem data_write_illegal_char_witness:
  "data_write put (QrNumber [0x31, 0x32, 0x33, 0x41, 0x34]) qrBitBuffer = Inl (IllegalChar 0x41)"
  by (rule data_write_illegal_char [where data = "[0x31, 0x32, 0x33, 0x41, 0x34]"])
     (simp add: is_digit_def)

end
