(* ===== verification/GF256.thy ===== *)
theory GF256
  imports Prelude
begin

text \<open>
  Reference arithmetic of GF(256) = GF(2)[x] / (x^8 + x^4 + x^3 + x^2 + 1), independent of the
  tables of the code: addition is XOR of bytes, \<open>mulX\<close> is multiplication by x (a shift and a
  conditional XOR with 0x1D), and the product adds the shifts of one factor selected by the bits
  of the other. The type is an instance of the library's commutative rings, so that polynomial
  evaluation over it uses the library's algebra.
\<close>

typedef gf256 = "UNIV :: 8 word set" morphisms gf_rep GF
  by simp

setup_lifting type_definition_gf256

instantiation gf256 :: ab_group_add
begin

lift_definition zero_gf256 :: gf256 is 0 .

lift_definition plus_gf256 :: "gf256 \<Rightarrow> gf256 \<Rightarrow> gf256" is "(XOR)" .

lift_definition minus_gf256 :: "gf256 \<Rightarrow> gf256 \<Rightarrow> gf256" is "(XOR)" .

lift_definition uminus_gf256 :: "gf256 \<Rightarrow> gf256" is "\<lambda>w. w" .

instance
  by standard (transfer; simp add: ac_simps)+

end

lemma gf_add_self [simp]: "(a :: gf256) + a = 0"
  by transfer simp

lemma gf_uminus [simp]: "- (a :: gf256) = a"
  by transfer simp

lemma gf_minus [simp]: "(a :: gf256) - b = a + b"
  by transfer simp

lemma gf_add_self_left [simp]: "(a :: gf256) + (a + b) = b"
  by (simp flip: add.assoc)

lift_definition gf_bit :: "gf256 \<Rightarrow> nat \<Rightarrow> bool" is bit .

lift_definition mulX :: "gf256 \<Rightarrow> gf256" is
  "\<lambda>w. push_bit 1 w XOR (if bit w 7 then 29 else 0)" .

instantiation gf256 :: one
begin

lift_definition one_gf256 :: gf256 is 1 .

instance ..

end

instantiation gf256 :: times
begin

definition times_gf256 :: "gf256 \<Rightarrow> gf256 \<Rightarrow> gf256" where
  "times_gf256 a b = (\<Sum>i<8. if gf_bit b i then (mulX ^^ i) a else 0)"

instance ..

end

lemma gf_bit_add: "gf_bit (a + b) i \<longleftrightarrow> gf_bit a i \<noteq> gf_bit b i"
  by transfer (simp add: bit_xor_iff)

lemma gf_bit_0 [simp]: "\<not> gf_bit 0 i"
  by transfer simp

lemma mulX_0 [simp]: "mulX 0 = 0"
  by transfer simp

lemma mulX_add [simp]: "mulX (a + b) = mulX a + mulX b"
proof transfer
  fix a b :: "8 word"
  have "(if P \<noteq> Q then 29 else 0) = (if P then 29 else 0) XOR (if Q then 29 else (0 :: 8 word))" for P Q
    by simp
  then show "push_bit 1 (a XOR b) XOR (if bit (a XOR b) 7 then 29 else 0) =
      (push_bit 1 a XOR (if bit a 7 then 29 else 0)) XOR (push_bit 1 b XOR (if bit b 7 then 29 else 0))"
    by (simp add: push_bit_xor bit_xor_iff ac_simps)
qed

lemma mulX_pow_add [simp]: "(mulX ^^ n) (a + b) = (mulX ^^ n) a + (mulX ^^ n) b"
  by (induction n) simp_all

lemma mulX_pow_0 [simp]: "(mulX ^^ n) 0 = 0"
  by (induction n) simp_all

lemma mulX_pow_sum: "(mulX ^^ n) (sum f A) = (\<Sum>i\<in>A. (mulX ^^ n) (f i))"
  by (induction A rule: infinite_finite_induct) simp_all

lemma gf_mult_sum: "a * b = (\<Sum>i<8. if gf_bit b i then (mulX ^^ i) a else 0)"
  by (simp add: times_gf256_def)

lemma gf_add_mult: "(a + b) * (c :: gf256) = a * c + b * c"
  unfolding gf_mult_sum sum.distrib [symmetric] by (rule sum.cong) auto

lemma gf_mult_add: "a * (b + c :: gf256) = a * b + a * c"
  unfolding gf_mult_sum sum.distrib [symmetric] by (rule sum.cong) (auto simp: gf_bit_add)

lemma gf_0_mult: "0 * (a :: gf256) = 0"
  by (simp add: gf_mult_sum cong: if_cong)

lemma gf_mulX_mult: "mulX a * b = mulX (a * b)"
  using mulX_pow_sum [of 1 "\<lambda>i. if gf_bit b i then (mulX ^^ i) a else 0" "{..<8}"]
  by (simp add: gf_mult_sum if_distrib funpow_swap1 cong: if_cong)

lemma gf_mulX_pow_mult: "(mulX ^^ n) a * b = (mulX ^^ n) (a * b)"
  by (induction n) (simp_all add: gf_mulX_mult)

lemma gf_rep_pow: "i < 8 \<Longrightarrow> gf_rep ((mulX ^^ i) 1) = 2 ^ i"
proof (induction i)
  case 0
  show ?case by (simp add: one_gf256.rep_eq)
next
  case (Suc i)
  have "\<not> bit (2 ^ i :: 8 word) 7"
    using Suc.prems by (simp add: bit_exp_iff)
  with Suc show ?case
    by (simp add: mulX.rep_eq push_bit_eq_mult ac_simps)
qed

lemma gf_expand: "b = (\<Sum>i<8. if gf_bit b i then (mulX ^^ i) 1 else 0)"
proof -
  have rep_sum: "bit (gf_rep (\<Sum>i<m. if gf_bit b i then (mulX ^^ i) 1 else 0)) n \<longleftrightarrow>
      n < m \<and> gf_bit b n" if "m \<le> 8" "n < 8" for m n
    using that
  proof (induction m)
    case (Suc m)
    then have "gf_rep ((mulX ^^ m) 1) = 2 ^ m" by (intro gf_rep_pow) simp
    with Suc show ?case
      by (auto simp: plus_gf256.rep_eq bit_xor_iff bit_exp_iff zero_gf256.rep_eq less_Suc_eq)
  qed (simp add: zero_gf256.rep_eq)
  have "gf_rep b = gf_rep (\<Sum>i<8. if gf_bit b i then (mulX ^^ i) 1 else 0)"
    using rep_sum [of 8] by (intro bit_word_eqI) (simp add: gf_bit.rep_eq)
  then show ?thesis by (simp add: gf_rep_inject)
qed

lemma gf_1_mult: "1 * (b :: gf256) = b"
  using gf_expand [of b] by (simp add: gf_mult_sum)

lemma gf_sum_mult: "sum f A * (c :: gf256) = (\<Sum>i\<in>A. f i * c)"
  by (induction A rule: infinite_finite_induct) (simp_all add: gf_add_mult gf_0_mult)

lemma gf_mult_if: "(if P then a else 0) * (b :: gf256) = (if P then a * b else 0)"
  by (simp add: gf_0_mult)

lemma gf_mult_comm: "a * b = b * (a :: gf256)"
proof -
  let ?f = "\<lambda>a b i j. if gf_bit b i \<and> gf_bit a j then (mulX ^^ (i + j)) 1 else (0 :: gf256)"
  have expand: "a * b = (\<Sum>i<8. \<Sum>j<8. ?f a b i j)" for a b
  proof -
    have "(if gf_bit b i then (mulX ^^ i) a else 0) = (\<Sum>j<8. ?f a b i j)" for i
    proof (cases "gf_bit b i")
      case True
      have "(mulX ^^ i) a = (mulX ^^ i) (\<Sum>j<8. if gf_bit a j then (mulX ^^ j) 1 else 0)"
        by (simp flip: gf_expand)
      also have "\<dots> = (\<Sum>j<8. ?f a b i j)"
        using True by (simp add: mulX_pow_sum funpow_add if_distrib cong: if_cong)
      finally show ?thesis using True by simp
    qed simp
    then show ?thesis by (simp add: gf_mult_sum)
  qed
  have "a * b = (\<Sum>j<8. \<Sum>i<8. ?f a b i j)"
    unfolding expand by (rule sum.swap)
  also have "\<dots> = b * a"
    unfolding expand by (intro sum.cong refl) (auto simp: add.commute)
  finally show ?thesis .
qed

lemma gf_mult_assoc: "(a * b) * c = a * (b * (c :: gf256))"
proof -
  have shift: "a * (mulX ^^ n) 1 = (mulX ^^ n) a" for n and a :: gf256
    by (simp add: gf_mult_comm [of a] gf_mulX_pow_mult gf_1_mult)
  have step: "(a * (mulX ^^ n) 1) * c = a * ((mulX ^^ n) 1 * c)" for n
    by (simp add: shift gf_mulX_pow_mult gf_1_mult)
       (simp add: gf_mult_comm [of a] gf_mulX_pow_mult)
  let ?e = "\<lambda>i. if gf_bit b i then (mulX ^^ i) 1 else (0 :: gf256)"
  have lin: "a * sum f A = (\<Sum>i\<in>A. a * f i)" for a :: gf256 and f :: "nat \<Rightarrow> gf256" and A
    by (simp add: gf_mult_comm [of a] gf_sum_mult)
  have "(a * sum ?e {..<8}) * c = (\<Sum>i<8. (a * ?e i) * c)"
    by (simp only: lin gf_sum_mult)
  also have "\<dots> = (\<Sum>i<8. a * (?e i * c))"
    by (rule sum.cong) (simp_all add: step gf_0_mult gf_mult_comm [of a 0])
  also have "\<dots> = a * (sum ?e {..<8} * c)"
    by (simp only: lin gf_sum_mult)
  finally show ?thesis by (simp flip: gf_expand)
qed

instance gf256 :: comm_ring_1
proof
  fix a b c :: gf256
  show "a * b * c = a * (b * c)" by (rule gf_mult_assoc)
  show "a * b = b * a" by (rule gf_mult_comm)
  show "1 * a = a" by (rule gf_1_mult)
  show "(a + b) * c = a * c + b * c" by (rule gf_add_mult)
  show "(0 :: gf256) \<noteq> 1" by transfer simp
qed

end
