(* ===== verification/QR_Math.thy ===== *)
theory QR_Math
  imports GF256
begin

text \<open>
  \<open>QRMath\<close> of \<open>examples/chat/vendor/qrcode.js\<close>: the exponential and logarithm tables of
  GF(256) and their two readers \<open>glog\<close> and \<open>gexp\<close>.
\<close>

subsection \<open>The tables\<close>

definition exp_entry :: "int list \<Rightarrow> nat \<Rightarrow> int" where
  "exp_entry t i = js_xor (js_xor (js_xor (t ! (i - 4)) (t ! (i - 5))) (t ! (i - 6))) (t ! (i - 8))"

definition EXP_TABLE :: "int list" where
  "EXP_TABLE = fold (\<lambda>i t. t @ [exp_entry t i]) [8..<256] (map (js_shl 1) [0..<8])"

definition LOG_TABLE :: "int option list" where
  "LOG_TABLE = fold (\<lambda>i t. t[nat (EXP_TABLE ! i) := Some (int i)]) [0..<255] (replicate 256 None)"



text \<open>
  The literal table: one pass over it checks the recurrence, and the loop can only have built
  the list that satisfies it.
\<close>

definition exp_literal :: "int list" where
  "exp_literal =
    [1, 2, 4, 8, 16, 32, 64, 128, 29, 58, 116, 232, 205, 135, 19, 38,
     76, 152, 45, 90, 180, 117, 234, 201, 143, 3, 6, 12, 24, 48, 96, 192,
     157, 39, 78, 156, 37, 74, 148, 53, 106, 212, 181, 119, 238, 193, 159, 35,
     70, 140, 5, 10, 20, 40, 80, 160, 93, 186, 105, 210, 185, 111, 222, 161,
     95, 190, 97, 194, 153, 47, 94, 188, 101, 202, 137, 15, 30, 60, 120, 240,
     253, 231, 211, 187, 107, 214, 177, 127, 254, 225, 223, 163, 91, 182, 113, 226,
     217, 175, 67, 134, 17, 34, 68, 136, 13, 26, 52, 104, 208, 189, 103, 206,
     129, 31, 62, 124, 248, 237, 199, 147, 59, 118, 236, 197, 151, 51, 102, 204,
     133, 23, 46, 92, 184, 109, 218, 169, 79, 158, 33, 66, 132, 21, 42, 84,
     168, 77, 154, 41, 82, 164, 85, 170, 73, 146, 57, 114, 228, 213, 183, 115,
     230, 209, 191, 99, 198, 145, 63, 126, 252, 229, 215, 179, 123, 246, 241, 255,
     227, 219, 171, 75, 150, 49, 98, 196, 149, 55, 110, 220, 165, 87, 174, 65,
     130, 25, 50, 100, 200, 141, 7, 14, 28, 56, 112, 224, 221, 167, 83, 166,
     81, 162, 89, 178, 121, 242, 249, 239, 195, 155, 43, 86, 172, 69, 138, 9,
     18, 36, 72, 144, 61, 122, 244, 245, 247, 243, 251, 235, 203, 139, 11, 22,
     44, 88, 176, 125, 250, 233, 207, 131, 27, 54, 108, 216, 173, 71, 142, 1]"

fun exp_recurrence :: "int list \<Rightarrow> bool" where
  "exp_recurrence (a # b # c # d # e # f # g # h # x # xs) \<longleftrightarrow>
     x = js_xor (js_xor (js_xor e d) c) a \<and> exp_recurrence (b # c # d # e # f # g # h # x # xs)"
| "exp_recurrence _ \<longleftrightarrow> True"

lemma exp_entry_Cons: "8 \<le> j \<Longrightarrow> exp_entry (a # t) (Suc j) = exp_entry t j"
  by (simp add: exp_entry_def Suc_diff_le)

lemma exp_recurrence_nth:
  "exp_recurrence t \<Longrightarrow> 8 \<le> i \<Longrightarrow> i < length t \<Longrightarrow> t ! i = exp_entry t i"
proof (induction t arbitrary: i rule: exp_recurrence.induct)
  case (1 a b c d e f g h x xs)
  show ?case
  proof (cases "i = 8")
    case True
    with "1.prems" show ?thesis by (simp add: exp_entry_def)
  next
    case False
    with "1.prems" obtain j where "i = Suc j" "8 \<le> j" by (cases i) auto
    moreover have "exp_recurrence (b # c # d # e # f # g # h # x # xs)"
      using exp_recurrence.simps(1) [THEN iffD1, OF "1.prems"(1)] by blast
    then have "(b # c # d # e # f # g # h # x # xs) ! j
        = exp_entry (b # c # d # e # f # g # h # x # xs) j"
      by (rule "1.IH") (use "1.prems"(3) \<open>8 \<le> j\<close> \<open>i = Suc j\<close> in simp_all)
    ultimately show ?thesis by (simp only: exp_entry_Cons nth_Cons_Suc)
  qed
qed simp_all

lemma exp_entry_take: "8 \<le> i \<Longrightarrow> exp_entry (take i t) i = exp_entry t i"
  by (simp add: exp_entry_def)

lemma exp_loop_take:
  assumes "exp_recurrence t" and "8 + k \<le> length t"
  shows "fold (\<lambda>i t. t @ [exp_entry t i]) [8..<8 + k] (take 8 t) = take (8 + k) t"
  using assms(2)
proof (induction k)
  case (Suc k)
  with assms(1) have "t ! (8 + k) = exp_entry t (8 + k)"
    by (intro exp_recurrence_nth) simp_all
  moreover have "[8..<8 + Suc k] = [8..<8 + k] @ [8 + k]"
    using upt_Suc [of 8 "8 + k"] by simp
  moreover have "take (8 + Suc k) t = take (8 + k) t @ [t ! (8 + k)]"
    using Suc.prems take_Suc_conv_app_nth [of "8 + k" t] by simp
  ultimately show ?case
    using Suc by (simp add: exp_entry_take)
qed simp

lemma length_exp_literal [simp]: "length exp_literal = 256"
  by (simp add: exp_literal_def)

lemma exp_literal_recurrence: "exp_recurrence exp_literal"
  by (simp add: exp_literal_def js_xor_small)

lemma EXP_TABLE_literal: "EXP_TABLE = exp_literal"
proof -
  have init: "map (js_shl 1) [0..<8] = take 8 exp_literal"
    by (simp add: exp_literal_def upt_rec js_shl_def to_int32_def)
  have len: "length exp_literal = 256"
    by (simp add: exp_literal_def)
  show ?thesis
    unfolding EXP_TABLE_def init
    using exp_loop_take [OF exp_literal_recurrence, of 248] len
    by (simp del: upt_rec_numeral)
qed


lemma exp_literal_distinct: "distinct (take 255 exp_literal)"
  by (simp add: exp_literal_def)

lemma length_EXP_TABLE [simp]: "length EXP_TABLE = 256"
  by (simp add: EXP_TABLE_literal exp_literal_def)

subsection \<open>Reading the tables\<close>

text \<open>
  \<open>glog\<close> throws below 1; the argument may also be \<open>undefined\<close> (a hole of a coefficient array),
  which passes the guard and reads \<open>undefined\<close> off the table, as a number above 255 does.
\<close>

definition glog :: "int option \<Rightarrow> int option result" where
  "glog n = (case n of
     None \<Rightarrow> Inr None
   | Some k \<Rightarrow> if k < 1 then Inl (Glog k) else if k < 256 then Inr (LOG_TABLE ! nat k) else Inr None)"

function gexp_up :: "int \<Rightarrow> int" where
  "gexp_up n = (if n < 0 then gexp_up (n + 255) else n)"
  by pat_completeness auto
termination
  by (relation "measure (\<lambda>n. nat (- n))") auto

function gexp_down :: "int \<Rightarrow> int" where
  "gexp_down n = (if 256 \<le> n then gexp_down (n - 255) else n)"
  by pat_completeness auto
termination
  by (relation "measure nat") auto

declare gexp_up.simps [simp del] gexp_down.simps [simp del]

lemma gexp_up_nonneg [simp]: "0 \<le> n \<Longrightarrow> gexp_up n = n"
  by (simp add: gexp_up.simps [of n])

lemma gexp_up_negative: "n < 0 \<Longrightarrow> gexp_up n = gexp_up (n + 255)"
  by (simp add: gexp_up.simps [of n])

lemma gexp_down_small [simp]: "n < 256 \<Longrightarrow> gexp_down n = n"
  by (simp add: gexp_down.simps [of n])

lemma gexp_down_large: "256 \<le> n \<Longrightarrow> gexp_down n = gexp_down (n - 255)"
  by (simp add: gexp_down.simps [of n])

definition gexp :: "int option \<Rightarrow> int option" where
  "gexp n = map_option (\<lambda>k. EXP_TABLE ! nat (gexp_down (gexp_up k))) n"

lemma gexp_None [simp]: "gexp None = None"
  by (simp add: gexp_def)

lemma gexp_up_spec: "0 \<le> gexp_up n \<and> gexp_up n mod 255 = n mod 255"
proof (induction n rule: gexp_up.induct)
  case (1 n)
  show ?case
  proof (cases "n < 0")
    case True
    with "1.IH" have "0 \<le> gexp_up (n + 255) \<and> gexp_up (n + 255) mod 255 = n mod 255" by simp
    with True show ?thesis by (simp add: gexp_up.simps [of n])
  next
    case False
    then show ?thesis by (simp add: gexp_up.simps [of n])
  qed
qed

lemma gexp_down_spec:
  "0 \<le> n \<Longrightarrow> 0 \<le> gexp_down n \<and> gexp_down n < 256 \<and> gexp_down n mod 255 = n mod 255"
proof (induction n rule: gexp_down.induct)
  case (1 n)
  have m: "(n - 255) mod 255 = n mod 255" by (rule minus_mod_self2)
  show ?case
  proof (cases "256 \<le> n")
    case True
    then have "0 \<le> n - 255" by simp
    from "1.IH" [OF True this] show ?thesis
      by (simp only: gexp_down.simps [of n] True if_True m)
  next
    case False
    with "1.prems" show ?thesis by (simp add: gexp_down.simps [of n])
  qed
qed

subsection \<open>The tables are the powers of the generator\<close>

definition gf :: "int \<Rightarrow> gf256" where
  "gf x = GF (word_of_int x)"

definition alpha :: gf256 where
  "alpha = gf 2"

lemma gf_0 [simp]: "gf 0 = 0"
  by (simp add: gf_def zero_gf256_def)

lemma gf_1: "gf 1 = 1"
  by (simp add: gf_def one_gf256_def)

lemma gf_xor: "gf (x XOR y) = gf x + gf y"
  by (simp add: gf_def plus_gf256.abs_eq of_int_xor_eq)

lemma gf_inject: "is_byte x \<Longrightarrow> is_byte y \<Longrightarrow> gf x = gf y \<longleftrightarrow> x = y"
  by (auto simp: gf_def GF_inject is_byte_def word_of_int_eq_iff take_bit_int_eq_self)

lemma gf_eq_0: "is_byte x \<Longrightarrow> gf x = 0 \<longleftrightarrow> x = 0"
  using gf_inject [of x 0] by (simp add: is_byte_def)

lemma gf_js_xor: "is_byte x \<Longrightarrow> is_byte y \<Longrightarrow> gf (js_xor x y) = gf x + gf y"
  by (simp add: js_xor_byte gf_xor)

lemma alpha_mult: "alpha * a = mulX a"
proof -
  have "alpha = mulX 1"
    by (simp add: alpha_def gf_def mulX_def one_gf256_def GF_inverse)
  then have "alpha * a = mulX 1 * a"
    by (rule arg_cong)
  then show ?thesis by (simp only: gf_mulX_mult mult_1)
qed

lemma gf_pow2: "i < 8 \<Longrightarrow> gf (2 ^ i) = alpha ^ i"
proof -
  assume "i < 8"
  have "alpha ^ i = (mulX ^^ i) 1"
    by (induction i) (simp_all add: alpha_mult)
  then show ?thesis
    using gf_rep_pow [OF \<open>i < 8\<close>] by (metis gf_def gf_rep_inverse of_int_numeral of_int_power)
qed

lemma alpha_reduction: "alpha ^ 8 = alpha ^ 4 + alpha ^ 3 + alpha ^ 2 + 1"
proof -
  have "alpha ^ 8 = alpha * gf (2 ^ 7)"
    using gf_pow2 [of 7] by (simp flip: power_Suc)
  also have "\<dots> = gf (2 ^ 4 XOR 2 ^ 3 XOR 2 ^ 2 XOR 2 ^ 0)"
    by (simp add: alpha_mult gf_def mulX_def GF_inverse GF_inject)
  also have "\<dots> = alpha ^ 4 + alpha ^ 3 + alpha ^ 2 + 1"
    by (simp only: gf_xor gf_pow2) simp
  finally show ?thesis .
qed

lemma exp_literal_byte: "i < 256 \<Longrightarrow> is_byte (exp_literal ! i)"
proof -
  have "list_all is_byte exp_literal"
    by (simp add: exp_literal_def is_byte_def)
  moreover assume "i < 256"
  ultimately show ?thesis
    by (simp add: list_all_length)
qed

lemma gf_exp_literal: "i < 256 \<Longrightarrow> gf (exp_literal ! i) = alpha ^ i"
proof (induction i rule: less_induct)
  case (less i)
  show ?case
  proof (cases "i < 8")
    case True
    then have "exp_literal ! i = 2 ^ i"
      by (cases i; simp add: exp_literal_def nth_Cons numeral_eq_Suc split: nat.split)
    with True show ?thesis by (simp add: gf_pow2)
  next
    case False
    then obtain j where i: "i = j + 8" by (metis add.commute le_Suc_ex not_less)
    with less.prems have b: "is_byte (exp_literal ! (j + k))" if "k < 8" for k
      using that by (intro exp_literal_byte) simp
    have "exp_literal ! i = exp_entry exp_literal i"
      using less.prems i by (intro exp_recurrence_nth exp_literal_recurrence) simp_all
    also have "\<dots> = js_xor (js_xor (js_xor (exp_literal ! (j + 4)) (exp_literal ! (j + 3)))
        (exp_literal ! (j + 2))) (exp_literal ! (j + 0))"
      by (simp add: exp_entry_def i add.commute [of j])
    finally have "gf (exp_literal ! i) = gf (exp_literal ! (j + 4)) + gf (exp_literal ! (j + 3))
        + gf (exp_literal ! (j + 2)) + gf (exp_literal ! (j + 0))"
      using b by (simp only: gf_js_xor is_byte_js_xor)
    also have "\<dots> = alpha ^ j * (alpha ^ 4 + alpha ^ 3 + alpha ^ 2 + 1)"
      using less by (simp add: i power_add algebra_simps power2_eq_square)
    finally show ?thesis
      by (simp add: i power_add alpha_reduction)
  qed
qed

lemma alpha_255: "alpha ^ 255 = 1"
proof -
  have "exp_literal ! 255 = 1" by (simp add: exp_literal_def)
  with gf_exp_literal [of 255] show ?thesis by (simp add: gf_1)
qed

lemma alpha_mod: "alpha ^ n = alpha ^ (n mod 255)"
proof -
  have "alpha ^ n = alpha ^ (255 * (n div 255) + n mod 255)" by simp
  then show ?thesis
    by (simp only: power_add power_mult alpha_255 power_one mult_1)
qed

lemma exp_literal_inj: "i < 255 \<Longrightarrow> j < 255 \<Longrightarrow> exp_literal ! i = exp_literal ! j \<Longrightarrow> i = j"
  using nth_eq_iff_index_eq [OF exp_literal_distinct, of i j]
  by simp

lemma LOG_TABLE_nth:
  assumes "i < 255"
  shows "LOG_TABLE ! nat (exp_literal ! i) = Some (int i)"
  unfolding LOG_TABLE_def EXP_TABLE_literal
proof (rule fold_update_nth [where k = "\<lambda>i. nat (exp_literal ! i)"])
  show "i \<in> set [0..<255]" using assms by simp
  show "inj_on (\<lambda>i. nat (exp_literal ! i)) (set [0..<255])"
  proof (rule inj_onI)
    fix i j
    assume "i \<in> set [0..<255]" "j \<in> set [0..<255]" "nat (exp_literal ! i) = nat (exp_literal ! j)"
    moreover from this have "is_byte (exp_literal ! i)" "is_byte (exp_literal ! j)"
      by (simp_all add: exp_literal_byte)
    ultimately have "exp_literal ! i = exp_literal ! j" "i < 255" "j < 255"
      by (auto simp: is_byte_def eq_nat_nat_iff)
    then show "i = j" by (intro exp_literal_inj)
  qed
  show "nat (exp_literal ! i) < length (replicate 256 (None :: int option))"
    using exp_literal_byte [of i] assms by (simp add: is_byte_def nat_less_iff)
qed

text \<open>Every nonzero byte is an entry of the first 255.\<close>

lemma exp_literal_range: "set (take 255 exp_literal) = {1..255}"
proof (rule card_subset_eq)
  have "list_all (\<lambda>x. 1 \<le> x \<and> x \<le> 255) (take 255 exp_literal)"
    by (simp add: exp_literal_def)
  then show "set (take 255 exp_literal) \<subseteq> {1..255}"
    by (auto simp: list_all_iff)
  show "card (set (take 255 exp_literal)) = card {1..255 :: int}"
    using distinct_card [OF exp_literal_distinct] by simp
qed simp

lemma byte_is_power:
  assumes "is_byte x" "x \<noteq> 0"
  obtains i where "i < 255" "x = exp_literal ! i"
proof -
  from assms have "x \<in> set (take 255 exp_literal)"
    by (auto simp: exp_literal_range is_byte_def)
  then obtain i where "i < length (take 255 exp_literal)" "take 255 exp_literal ! i = x"
    by (auto simp: in_set_conv_nth)
  then show ?thesis
    using that [of i] by auto
qed

subsection \<open>Correctness of \<open>glog\<close> and \<open>gexp\<close>\<close>

lemma gexp_Some:
  obtains e where "gexp (Some n) = Some e" "is_byte e" "e \<noteq> 0" "gf e = alpha ^ nat (n mod 255)"
proof -
  let ?m = "gexp_down (gexp_up n)"
  have m: "0 \<le> ?m" "?m < 256" "?m mod 255 = n mod 255"
    using gexp_up_spec [of n] gexp_down_spec [of "gexp_up n"] by simp_all
  then have "gf (exp_literal ! nat ?m) = alpha ^ (nat ?m mod 255)"
    using gf_exp_literal [of "nat ?m"] alpha_mod [of "nat ?m"] by simp
  moreover have "nat ?m mod 255 = nat (n mod 255)"
    using m by (simp flip: nat_mod_distrib [of ?m 255, simplified])
  moreover have "list_all (\<lambda>x. x \<noteq> 0) exp_literal"
    by (simp add: exp_literal_def)
  then have "exp_literal ! nat ?m \<noteq> 0"
    using m by (simp add: list_all_length)
  ultimately show ?thesis
    using m that [of "exp_literal ! nat ?m"] exp_literal_byte [of "nat ?m"]
    by (simp add: gexp_def EXP_TABLE_literal)
qed

lemma glog_byte:
  assumes "is_byte x" "x \<noteq> 0"
  obtains l where "glog (Some x) = Inr (Some (int l))" "l < 255" "gf x = alpha ^ l"
    "x = exp_literal ! l"
proof -
  obtain i where i: "i < 255" "x = exp_literal ! i"
    using byte_is_power [OF assms] by blast
  with assms show ?thesis
    using that [of i] by (simp add: glog_def LOG_TABLE_nth gf_exp_literal is_byte_def)
qed

subsection \<open>Evaluation\<close>

text \<open>The values of both readers as one rewrite rule per argument, for evaluation by \<open>simp\<close>.\<close>

lemma glog_exp_literal:
  assumes "i < 255"
  shows "glog (Some (exp_literal ! i)) = Inr (Some (int i))"
proof -
  have b: "is_byte (exp_literal ! i)" "exp_literal ! i \<in> set (take 255 exp_literal)"
    using assms exp_literal_byte [of i] by (auto simp: in_set_conv_nth intro!: exI [of _ i])
  then show ?thesis
    using assms by (auto simp: exp_literal_range glog_def LOG_TABLE_nth is_byte_def)
qed

lemma gexp_literal: "i < 256 \<Longrightarrow> gexp (Some (int i)) = Some (exp_literal ! i)"
  by (simp add: gexp_def EXP_TABLE_literal)

lemma gexp_wrap: "i < 254 \<Longrightarrow> gexp (Some (256 + int i)) = Some (exp_literal ! Suc i)"
  by (simp add: gexp_def EXP_TABLE_literal gexp_down_large nat_add_distrib)

lemma gexp_255: "gexp (Some 255) = Some 1"
  using gexp_literal [of 255] by (simp add: exp_literal_def)

definition exponents :: "int list" where
  "exponents =
    [0, 1, 2, 3, 4, 5, 6, 7, 8, 9, 10, 11, 12, 13, 14, 15, 16, 17, 18, 19,
     20, 21, 22, 23, 24, 25, 26, 27, 28, 29, 30, 31, 32, 33, 34, 35, 36, 37, 38, 39,
     40, 41, 42, 43, 44, 45, 46, 47, 48, 49, 50, 51, 52, 53, 54, 55, 56, 57, 58, 59,
     60, 61, 62, 63, 64, 65, 66, 67, 68, 69, 70, 71, 72, 73, 74, 75, 76, 77, 78, 79,
     80, 81, 82, 83, 84, 85, 86, 87, 88, 89, 90, 91, 92, 93, 94, 95, 96, 97, 98, 99,
     100, 101, 102, 103, 104, 105, 106, 107, 108, 109, 110, 111, 112, 113, 114, 115, 116, 117, 118, 119,
     120, 121, 122, 123, 124, 125, 126, 127, 128, 129, 130, 131, 132, 133, 134, 135, 136, 137, 138, 139,
     140, 141, 142, 143, 144, 145, 146, 147, 148, 149, 150, 151, 152, 153, 154, 155, 156, 157, 158, 159,
     160, 161, 162, 163, 164, 165, 166, 167, 168, 169, 170, 171, 172, 173, 174, 175, 176, 177, 178, 179,
     180, 181, 182, 183, 184, 185, 186, 187, 188, 189, 190, 191, 192, 193, 194, 195, 196, 197, 198, 199,
     200, 201, 202, 203, 204, 205, 206, 207, 208, 209, 210, 211, 212, 213, 214, 215, 216, 217, 218, 219,
     220, 221, 222, 223, 224, 225, 226, 227, 228, 229, 230, 231, 232, 233, 234, 235, 236, 237, 238, 239,
     240, 241, 242, 243, 244, 245, 246, 247, 248, 249, 250, 251, 252, 253, 254]"

lemma exponents_eq: "exponents = map int [0..<255]"
  unfolding exponents_def by code_simp

lemma glog_values_list: "list_all2 (\<lambda>e i. glog (Some e) = Inr (Some i)) (take 255 exp_literal) exponents"
  by (simp add: exponents_eq list_all2_conv_all_nth glog_exp_literal)

lemma gexp_values_list: "list_all2 (\<lambda>e i. gexp (Some i) = Some e) (take 255 exp_literal) exponents"
  by (simp add: exponents_eq list_all2_conv_all_nth gexp_literal)

lemma gexp_wrap_list:
  "list_all2 (\<lambda>e i. gexp (Some (i + 255)) = Some e) (tl (take 255 exp_literal)) (tl exponents)"
  by (simp add: exponents_eq list_all2_conv_all_nth nth_tl gexp_wrap)

lemmas glog_values = glog_values_list [unfolded exponents_def exp_literal_def, simplified]

lemmas gexp_values = gexp_values_list [unfolded exponents_def exp_literal_def, simplified]

lemmas gexp_wrap_values = gexp_255 gexp_wrap_list [unfolded exponents_def exp_literal_def, simplified]

lemma alpha_shift: "alpha ^ l * alpha ^ nat (d mod 255) = alpha ^ nat ((int l + d) mod 255)"
proof -
  have "(l + nat (d mod 255)) mod 255 = nat ((int l + d) mod 255)"
    using nat_mod_distrib [of "int l + d mod 255" 255]
    by (simp add: nat_add_distrib mod_add_right_eq)
  then show ?thesis
    using alpha_mod [of "l + nat (d mod 255)"] by (simp add: power_add)
qed

text \<open>
  The expression \<open>QRMath.gexp(QRMath.glog(a) + QRMath.glog(b))\<close> that \<open>multiply\<close> evaluates for
  every pair of coefficients.
\<close>

definition table_product :: "int option \<Rightarrow> int option \<Rightarrow> int option result" where
  "table_product a b = rbind (glog a) (\<lambda>x. rbind (glog b) (\<lambda>y. Inr (gexp (js_add x y))))"

lemma table_product_byte:
  assumes "is_byte a" "a \<noteq> 0" "is_byte b" "b \<noteq> 0"
  obtains c where "table_product (Some a) (Some b) = Inr (Some c)" "is_byte c" "c \<noteq> 0"
    "gf c = gf a * gf b"
proof -
  obtain l where l: "glog (Some a) = Inr (Some (int l))" "gf a = alpha ^ l"
    using glog_byte [OF assms(1,2)] by blast
  obtain m where m: "glog (Some b) = Inr (Some (int m))" "gf b = alpha ^ m"
    using glog_byte [OF assms(3,4)] by blast
  obtain c where c: "gexp (Some (int l + int m)) = Some c" "is_byte c" "c \<noteq> 0"
      "gf c = alpha ^ nat ((int l + int m) mod 255)"
    using gexp_Some by blast
  have "nat ((int l + int m) mod 255) = (l + m) mod 255"
    using nat_mod_distrib [of "int l + int m" 255] by (simp add: nat_add_distrib)
  then have "gf c = gf a * gf b"
    using c(4) l(2) m(2) alpha_mod [of "l + m"] by (simp add: power_add)
  with c l m show ?thesis
    using that by (simp add: table_product_def)
qed

text \<open>
  The logarithm and exponential tables are inverse to each other: every byte from 1 to 255 has
  a logarithm below 255 whose exponential is the byte again.
\<close>

lemma gexp_glog:
  assumes "is_byte x" "x \<noteq> 0"
  shows "\<exists>l. glog (Some x) = Inr (Some l) \<and> 0 \<le> l \<and> l < 255 \<and> gexp (Some l) = Some x"
proof -
  obtain l where l: "glog (Some x) = Inr (Some (int l))" "l < 255" "gf x = alpha ^ l"
    using glog_byte [OF assms] by blast
  obtain e where e: "gexp (Some (int l)) = Some e" "is_byte e" "gf e = alpha ^ nat (int l mod 255)"
    using gexp_Some by blast
  with l have "gf e = gf x" by simp
  then have "e = x" using gf_inject [OF e(2) assms(1)] by blast
  with l e show ?thesis by auto
qed

text \<open>
  C26: adding logarithms multiplies in GF(256): for nonzero bytes the table expression of
  \<open>multiply\<close> returns the byte that represents the field product of the operands.
\<close>

theorem table_product_is_field_product:
  assumes "is_byte a" "a \<noteq> 0" "is_byte b" "b \<noteq> 0"
  shows "\<exists>c. table_product (Some a) (Some b) = Inr (Some c) \<and> is_byte c \<and> gf c = gf a * gf b"
  using table_product_byte [OF assms] by blast

theorem table_product_is_field_product_witness:
  "\<exists>c. table_product (Some 200) (Some 77) = Inr (Some c) \<and> is_byte c \<and> gf c = gf 200 * gf 77"
  by (rule table_product_is_field_product) (simp_all add: is_byte_def)

end
