(* ===== verification/QR_Polynomial.thy ===== *)
theory QR_Polynomial
  imports QR_Math
begin

text \<open>
  \<open>qrPolynomial\<close> of \<open>examples/chat/vendor/qrcode.js\<close>: polynomials over GF(256). A polynomial is its coefficient array \<open>_num\<close>, highest degree
  first. The array may hold holes: \<open>new Array(n)\<close> leaves the \<open>shift\<close> low coefficients
  \<open>undefined\<close>, which is \<open>None\<close> here; the comparison \<open>num[offset] == 0\<close> is false on a hole.
\<close>

type_synonym js_poly = "int option list"

subsection \<open>The operations\<close>

definition qrPolynomial :: "int option list \<Rightarrow> nat \<Rightarrow> js_poly" where
  "qrPolynomial num shift = dropWhile (\<lambda>x. x = Some 0) num @ replicate shift None"

definition getAt :: "js_poly \<Rightarrow> nat \<Rightarrow> int option" where
  "getAt p i = (if i < length p then p ! i else None)"

text \<open>\<open>num[k] ^= v\<close>.\<close>

definition xor_at :: "int option list \<Rightarrow> nat \<Rightarrow> int option \<Rightarrow> int option list" where
  "xor_at num k v = num[k := Some (js_xor (num_or_0 (getAt num k)) (num_or_0 v))]"

definition multiply :: "js_poly \<Rightarrow> js_poly \<Rightarrow> js_poly result" where
  "multiply p e =
     (if length p + length e = 0 then Inl RangeError
      else rbind
        (rfold (\<lambda>i. rfold (\<lambda>j num.
            rbind (table_product (getAt p i) (getAt e j)) (\<lambda>v. Inr (xor_at num (i + j) v)))
            [0..<length e]) [0..<length p] (replicate (length p + length e - 1) None))
        (\<lambda>num. Inr (qrPolynomial num 0)))"

text \<open>
  \<open>mod\<close>: one division step, and the recursion. The code recurses without a bound, so a run that
  does not end is \<open>None\<close>.
\<close>

definition mod_step :: "js_poly \<Rightarrow> js_poly \<Rightarrow> js_poly result" where
  "mod_step p e =
     rbind (glog (getAt p 0)) (\<lambda>lp. rbind (glog (getAt e 0)) (\<lambda>le.
       let ratio = js_sub lp le in
       rbind
         (rfold (\<lambda>i num. rbind (glog (getAt e i)) (\<lambda>l. Inr (xor_at num i (gexp (js_add l ratio)))))
            [0..<length e] p)
         (\<lambda>num. Inr (qrPolynomial num 0))))"

partial_function (option) poly_mod :: "js_poly \<Rightarrow> js_poly \<Rightarrow> js_poly result option" where
  "poly_mod p e =
     (if length p < length e then Some (Inr p)
      else case mod_step p e of Inl err \<Rightarrow> Some (Inl err) | Inr p' \<Rightarrow> poly_mod p' e)"

subsection \<open>Evaluation over the field\<close>

definition coef :: "int option \<Rightarrow> gf256" where
  "coef c = gf (num_or_0 c)"

definition peval :: "gf256 \<Rightarrow> js_poly \<Rightarrow> gf256" where
  "peval x p = (\<Sum>i<length p. coef (p ! i) * x ^ (length p - 1 - i))"

text \<open>Coefficient arrays of bytes and holes, and of nonzero bytes.\<close>

definition byte_coef :: "int option \<Rightarrow> bool" where
  "byte_coef c \<longleftrightarrow> (case c of None \<Rightarrow> True | Some x \<Rightarrow> is_byte x)"

definition nonzero_coef :: "int option \<Rightarrow> bool" where
  "nonzero_coef c \<longleftrightarrow> (case c of None \<Rightarrow> False | Some x \<Rightarrow> is_byte x \<and> x \<noteq> 0)"

abbreviation byte_poly :: "js_poly \<Rightarrow> bool" where
  "byte_poly p \<equiv> list_all byte_coef p"

abbreviation nonzero_poly :: "js_poly \<Rightarrow> bool" where
  "nonzero_poly p \<equiv> list_all nonzero_coef p"

lemma coef_simps [simp]: "coef None = 0" "coef (Some x) = gf x"
  by (simp_all add: coef_def)

lemma byte_coef_simps [simp]: "byte_coef None" "byte_coef (Some x) = is_byte x"
  by (simp_all add: byte_coef_def)

lemma byte_coef_num: "byte_coef c \<Longrightarrow> is_byte (num_or_0 c)"
  by (cases c) (auto simp: is_byte_def)

lemma nonzero_coefE:
  assumes "nonzero_coef c"
  obtains x where "c = Some x" "is_byte x" "x \<noteq> 0"
  using assms by (cases c) (auto simp: nonzero_coef_def)

lemma nonzero_coef_Some [simp]: "nonzero_coef (Some x) \<longleftrightarrow> is_byte x \<and> x \<noteq> 0"
  by (simp add: nonzero_coef_def)

lemma nonzero_coef_byte: "nonzero_coef c \<Longrightarrow> byte_coef c"
  by (auto elim: nonzero_coefE)

lemma peval_Nil [simp]: "peval x [] = 0"
  by (simp add: peval_def)

lemma peval_Cons: "peval x (c # p) = coef c * x ^ length p + peval x p"
  unfolding peval_def length_Cons
  by (subst sum.lessThan_Suc_shift) simp

lemma peval_append: "peval x (p @ q) = peval x p * x ^ length q + peval x q"
  by (induction p) (simp_all add: peval_Cons power_add algebra_simps)

lemma peval_dropWhile: "peval x (dropWhile (\<lambda>c. c = Some 0) p) = peval x p"
  by (induction p) (auto simp: peval_Cons)

lemma peval_replicate_None [simp]: "peval x (replicate n None) = 0"
  by (induction n) (simp_all add: peval_Cons)

lemma peval_qrPolynomial: "peval x (qrPolynomial num shift) = peval x num * x ^ shift"
  by (simp add: qrPolynomial_def peval_append peval_dropWhile)

lemma peval_update:
  assumes "k < length p"
  shows "peval x (p[k := c]) = peval x p + (coef (p ! k) + coef c) * x ^ (length p - 1 - k)"
  using assms
proof (induction p arbitrary: k)
  case (Cons d p)
  show ?case
  proof (cases k)
    case 0
    then show ?thesis by (simp add: peval_Cons algebra_simps)
  next
    case (Suc j)
    with Cons show ?thesis by (simp add: peval_Cons algebra_simps)
  qed
qed simp

lemma peval_xor_at:
  assumes "k < length p" "byte_coef (p ! k)" "byte_coef v"
  shows "peval x (xor_at p k v) = peval x p + coef v * x ^ (length p - 1 - k)"
proof -
  have "coef (Some (js_xor (num_or_0 (p ! k)) (num_or_0 v))) = coef (p ! k) + coef v"
    using assms by (simp add: gf_js_xor byte_coef_num coef_def)
  with assms(1) show ?thesis
    by (simp add: xor_at_def getAt_def peval_update)
qed

lemma length_xor_at [simp]: "length (xor_at p k v) = length p"
  by (simp add: xor_at_def)

lemma byte_poly_xor_at:
  "byte_poly p \<Longrightarrow> byte_coef v \<Longrightarrow> byte_poly (xor_at p k v)"
proof -
  assume p: "byte_poly p" and v: "byte_coef v"
  then have "byte_coef (getAt p k)"
    by (auto simp: getAt_def list_all_length)
  with p v show ?thesis
    by (auto simp: xor_at_def list_all_iff is_byte_js_xor byte_coef_num
        dest!: set_update_subset_insert [THEN subsetD])
qed

lemma byte_poly_dropWhile: "byte_poly p \<Longrightarrow> byte_poly (dropWhile P p)"
  by (auto simp: list_all_iff dest: set_dropWhileD)

lemma byte_poly_qrPolynomial: "byte_poly num \<Longrightarrow> byte_poly (qrPolynomial num shift)"
  by (simp add: qrPolynomial_def byte_poly_dropWhile) (simp add: list_all_iff)

subsection \<open>\<open>multiply\<close> is the product\<close>

lemma table_product_coef:
  assumes "nonzero_coef a" "nonzero_coef b"
  obtains v where "table_product a b = Inr v" "byte_coef v" "coef v = coef a * coef b"
  using assms
  by (elim nonzero_coefE) (metis table_product_byte byte_coef_simps(2) coef_simps(2))

lemma getAt_nth [simp]: "i < length p \<Longrightarrow> getAt p i = p ! i"
  by (simp add: getAt_def)

lemma multiply_row:
  assumes "nonzero_coef a" "nonzero_poly e" "m + length e \<le> length num" "byte_poly num"
  shows "\<exists>num'. rfold (\<lambda>j num. rbind (table_product a (getAt e j)) (\<lambda>v. Inr (xor_at num (m + j) v)))
      [0..<length e] num = Inr num' \<and> length num' = length num \<and> byte_poly num' \<and>
      (\<forall>x. peval x num' = peval x num
        + coef a * (\<Sum>j<length e. coef (e ! j) * x ^ (length num - 1 - (m + j))))"
proof (rule rfold_upt_total [where I = "\<lambda>k num'. length num' = length num \<and> byte_poly num' \<and>
      (\<forall>x. peval x num' = peval x num
        + coef a * (\<Sum>j<k. coef (e ! j) * x ^ (length num - 1 - (m + j))))"])
  fix k num'
  assume k: "k < length e" and I: "length num' = length num \<and> byte_poly num' \<and>
      (\<forall>x. peval x num' = peval x num
        + coef a * (\<Sum>j<k. coef (e ! j) * x ^ (length num - 1 - (m + j))))"
  have "nonzero_coef (e ! k)" using k assms(2) by (simp add: list_all_length)
  with assms(1) obtain v where v: "table_product a (e ! k) = Inr v" "byte_coef v"
      "coef v = coef a * coef (e ! k)"
    by (rule table_product_coef)
  have "m + k < length num'" using k I assms(3) by simp
  then have "peval x (xor_at num' (m + k) v) = peval x num' + coef v * x ^ (length num - 1 - (m + k))" for x
    using I v(2) by (subst peval_xor_at) (auto simp: list_all_length)
  with I v k show "\<exists>num''. rbind (table_product a (getAt e k)) (\<lambda>v. Inr (xor_at num' (m + k) v)) = Inr num'' \<and>
      length num'' = length num \<and> byte_poly num'' \<and>
      (\<forall>x. peval x num'' = peval x num
        + coef a * (\<Sum>j<Suc k. coef (e ! j) * x ^ (length num - 1 - (m + j))))"
    by (simp add: byte_poly_xor_at algebra_simps)
qed (use assms(4) in simp)

lemma multiply_correct:
  assumes "nonzero_poly p" "nonzero_poly e" "p \<noteq> []" "e \<noteq> []"
  obtains r where "multiply p e = Inr r" "byte_poly r" "\<And>x. peval x r = peval x p * peval x e"
    "length r \<le> length p + length e - 1"
proof -
  let ?N = "length p + length e - 1"
  let ?num = "replicate ?N (None :: int option)"
  have "\<exists>num. rfold (\<lambda>i. rfold (\<lambda>j num.
            rbind (table_product (getAt p i) (getAt e j)) (\<lambda>v. Inr (xor_at num (i + j) v)))
            [0..<length e]) [0..<length p] ?num = Inr num \<and> length num = ?N \<and> byte_poly num \<and>
      (\<forall>x. peval x num = (\<Sum>i<length p. coef (p ! i) * x ^ (length p - 1 - i)) * peval x e)"
  proof (rule rfold_upt_total [where I = "\<lambda>k num. length num = ?N \<and> byte_poly num \<and>
      (\<forall>x. peval x num = (\<Sum>i<k. coef (p ! i) * x ^ (length p - 1 - i)) * peval x e)"])
    fix k num
    assume k: "k < length p" and I: "length num = ?N \<and> byte_poly num \<and>
      (\<forall>x. peval x num = (\<Sum>i<k. coef (p ! i) * x ^ (length p - 1 - i)) * peval x e)"
    have a: "nonzero_coef (p ! k)" using k assms(1) by (simp add: list_all_length)
    have "k + length e \<le> length num" using k I by simp
    from multiply_row [OF a assms(2) this] I obtain num' where
      num': "rfold (\<lambda>j num. rbind (table_product (p ! k) (getAt e j)) (\<lambda>v. Inr (xor_at num (k + j) v)))
        [0..<length e] num = Inr num'" "length num' = length num" "byte_poly num'"
      "\<And>x. peval x num' = peval x num
        + coef (p ! k) * (\<Sum>j<length e. coef (e ! j) * x ^ (length num - 1 - (k + j)))"
      by blast
    have "(\<Sum>j<length e. coef (e ! j) * x ^ (length num - 1 - (k + j)))
        = x ^ (length p - 1 - k) * peval x e" for x
      unfolding peval_def sum_distrib_left
    proof (rule sum.cong)
      fix j assume "j \<in> {..<length e}"
      then have "length num - 1 - (k + j) = (length p - 1 - k) + (length e - 1 - j)"
        using k I by simp
      then show "coef (e ! j) * x ^ (length num - 1 - (k + j))
          = x ^ (length p - 1 - k) * (coef (e ! j) * x ^ (length e - 1 - j))"
        by (simp add: power_add ac_simps)
    qed simp
    with num' I k show "\<exists>num'. rfold (\<lambda>j num. rbind (table_product (getAt p k) (getAt e j))
          (\<lambda>v. Inr (xor_at num (k + j) v))) [0..<length e] num = Inr num' \<and> length num' = ?N \<and>
        byte_poly num' \<and>
        (\<forall>x. peval x num' = (\<Sum>i<Suc k. coef (p ! i) * x ^ (length p - 1 - i)) * peval x e)"
      by (simp add: algebra_simps)
  qed (simp add: list_all_iff)
  then obtain num where num: "rfold (\<lambda>i. rfold (\<lambda>j num.
            rbind (table_product (getAt p i) (getAt e j)) (\<lambda>v. Inr (xor_at num (i + j) v)))
            [0..<length e]) [0..<length p] ?num = Inr num" "length num = ?N" "byte_poly num"
      "\<And>x. peval x num = peval x p * peval x e"
    by (auto simp: peval_def)
  have "multiply p e = Inr (qrPolynomial num 0)"
    using assms(3) by (simp add: multiply_def num(1) [unfolded One_nat_def])
  moreover have "length (qrPolynomial num 0) \<le> ?N"
    using num(2) length_dropWhile_le [of _ num] by (simp add: qrPolynomial_def)
  ultimately show ?thesis
    using that num by (simp add: byte_poly_qrPolynomial peval_qrPolynomial)
qed

subsection \<open>\<open>mod\<close> terminates and keeps the value at every root of the divisor\<close>

text \<open>
  Holes stay within the lowest \<open>n\<close> coefficients, so that a dividend at least as long as the
  divisor has a number in front, and \<open>dropWhile\<close> has removed leading zeros.
\<close>

definition holes_below :: "nat \<Rightarrow> js_poly \<Rightarrow> bool" where
  "holes_below n p \<longleftrightarrow> (\<forall>i<length p. p ! i = None \<longrightarrow> length p \<le> i + n)"

definition normal_poly :: "js_poly \<Rightarrow> bool" where
  "normal_poly p \<longleftrightarrow> (p = [] \<or> hd p \<noteq> Some 0)"

lemma normal_qrPolynomial_0: "normal_poly (qrPolynomial num 0)"
  by (induction num) (simp_all add: normal_poly_def qrPolynomial_def)

lemma normal_qrPolynomial: "normal_poly (qrPolynomial num k)"
proof (cases "qrPolynomial num 0 = []")
  case True
  then have "dropWhile (\<lambda>x. x = Some 0) num = []" by (simp add: qrPolynomial_def)
  then have "qrPolynomial num k = replicate k None"
    by (simp only: qrPolynomial_def append_Nil)
  then show ?thesis by (cases k) (auto simp: normal_poly_def)
next
  case False
  with normal_qrPolynomial_0 [of num] show ?thesis
    by (auto simp: normal_poly_def qrPolynomial_def hd_append)
qed

lemma holes_below_drop: "holes_below n p \<Longrightarrow> holes_below n (drop m p)"
  unfolding holes_below_def
proof (intro allI impI)
  fix i assume h: "\<forall>i<length p. p ! i = None \<longrightarrow> length p \<le> i + n"
    and i: "i < length (drop m p)" "drop m p ! i = None"
  then have "length p \<le> m + i + n" by simp
  then show "length (drop m p) \<le> i + n" by simp
qed

lemma holes_below_qrPolynomial_0: "holes_below n num \<Longrightarrow> holes_below n (qrPolynomial num 0)"
  by (simp add: qrPolynomial_def dropWhile_eq_drop holes_below_drop)

lemma qrPolynomial_0_shorter:
  "num \<noteq> [] \<Longrightarrow> hd num = Some 0 \<Longrightarrow> length (qrPolynomial num 0) < length num"
  by (cases num) (auto simp: qrPolynomial_def le_imp_less_Suc length_dropWhile_le)

lemma leading_coef:
  assumes "byte_poly p" "holes_below n p" "normal_poly p" "n < length p"
  shows "nonzero_coef (getAt p 0)"
proof -
  from assms(4) have p: "p \<noteq> []" by auto
  with assms(2,4) have "p ! 0 \<noteq> None" by (force simp: holes_below_def)
  moreover have "p ! 0 \<noteq> Some 0" using p assms(3) by (simp add: normal_poly_def hd_conv_nth)
  moreover have "byte_coef (p ! 0)" using p assms(1) by (simp add: list_all_length)
  ultimately show ?thesis
    using p by (cases "p ! 0") auto
qed

lemma mod_step_correct:
  assumes p: "byte_poly p" "holes_below n p" "nonzero_coef (getAt p 0)"
    and e: "nonzero_poly e" "e \<noteq> []" "length e \<le> length p"
  obtains p' where "mod_step p e = Inr p'" "byte_poly p'" "holes_below n p'" "normal_poly p'"
    "length p' < length p" "\<And>x. peval x e = 0 \<Longrightarrow> peval x p' = peval x p"
proof -
  obtain a where a: "getAt p 0 = Some a" "is_byte a" "a \<noteq> 0"
    using p(3) by (rule nonzero_coefE)
  obtain la where la: "glog (Some a) = Inr (Some (int la))" "gf a = alpha ^ la" "la < 255"
    using glog_byte [OF a(2,3)] by blast
  have "nonzero_coef (e ! 0)" using e(1,2) by (simp add: list_all_length)
  then obtain b where b: "e ! 0 = Some b" "is_byte b" "b \<noteq> 0"
    by (rule nonzero_coefE)
  obtain lb where lb: "glog (Some b) = Inr (Some (int lb))"
    using glog_byte [OF b(2,3)] by blast
  define c where "c = alpha ^ nat ((int la - int lb) mod 255)"
  let ?f = "\<lambda>i num. rbind (glog (getAt e i))
      (\<lambda>l. Inr (xor_at num i (gexp (js_add l (Some (int la - int lb))))))"
  let ?I = "\<lambda>k num. length num = length p \<and> byte_poly num \<and>
      (\<forall>i<length p. num ! i = None \<longrightarrow> p ! i = None) \<and> (0 < k \<longrightarrow> num ! 0 = Some 0) \<and>
      (k = 0 \<longrightarrow> num ! 0 = Some a) \<and>
      (\<forall>x. peval x num = peval x p + c * (\<Sum>i<k. coef (e ! i) * x ^ (length p - 1 - i)))"
  have "\<exists>num. rfold ?f [0..<length e] p = Inr num \<and> ?I (length e) num"
  proof (rule rfold_upt_total [where I = ?I])
    fix k num
    assume k: "k < length e" and I: "?I k num"
    have "nonzero_coef (e ! k)" using k e(1) by (simp add: list_all_length)
    then obtain d where d: "e ! k = Some d" "is_byte d" "d \<noteq> 0"
      by (rule nonzero_coefE)
    obtain l where l: "glog (Some d) = Inr (Some (int l))" "gf d = alpha ^ l" "l < 255"
      using glog_byte [OF d(2,3)] by blast
    obtain v where v: "gexp (Some (int l + (int la - int lb))) = Some v" "is_byte v"
        "gf v = alpha ^ nat ((int l + (int la - int lb)) mod 255)"
      using gexp_Some by blast
    have cv: "gf v = c * gf d"
      using v(3) by (simp only: c_def l(2) alpha_shift [symmetric] mult.commute)
    have zero: "xor_at num k (Some v) ! 0 = Some 0" if "k = 0"
    proof -
      have "b = d" "l = lb" using that b d l lb by auto
      then have "gf v = gf a" using v(3) la by simp
      then have "v = a" using gf_inject [OF v(2) a(2)] by blast
      then show ?thesis
        using that I e by (simp add: xor_at_def getAt_def js_xor_byte a(2)) (metis Suc_leI length_greater_0_conv list.size(3) not_less_eq_eq)
    qed
    have "k < length num" using k I e(3) by simp
    with I v(2) have "peval x (xor_at num k (Some v))
        = peval x num + gf v * x ^ (length p - 1 - k)" for x
      by (subst peval_xor_at) (auto simp: list_all_length)
    with I have "peval x (xor_at num k (Some v))
        = peval x p + c * (\<Sum>i<Suc k. coef (e ! i) * x ^ (length p - 1 - i))" for x
      by (simp add: cv d(1) algebra_simps)
    moreover have "byte_poly (xor_at num k (Some v))"
      using I v(2) by (intro byte_poly_xor_at) simp_all
    moreover have "\<forall>i<length p. xor_at num k (Some v) ! i = None \<longrightarrow> p ! i = None"
    proof (intro allI impI)
      fix i assume "i < length p" "xor_at num k (Some v) ! i = None"
      with I show "p ! i = None" by (cases "i = k") (auto simp: xor_at_def)
    qed
    moreover have "xor_at num k (Some v) ! 0 = Some 0"
      using zero I by (cases "k = 0") (auto simp: xor_at_def)
    ultimately show "\<exists>num'. ?f k num = Inr num' \<and> ?I (Suc k) num'"
      using I k by (simp add: d(1) l(1) v(1))
  qed (use p a e in \<open>auto simp: getAt_def split: if_splits\<close>)
  then obtain num where num: "rfold ?f [0..<length e] p = Inr num" "?I (length e) num"
    by blast
  have "mod_step p e = Inr (qrPolynomial num 0)"
    using e(2) by (simp add: mod_step_def a(1) b(1) la(1) lb num(1))
  moreover have "holes_below n num"
    using num(2) p(2) by (simp add: holes_below_def)
  moreover have "num \<noteq> []" "num ! 0 = Some 0"
    using num(2) e(2,3) by auto
  then have "num \<noteq> []" "hd num = Some 0"
    by (simp_all add: hd_conv_nth)
  then have "length (qrPolynomial num 0) < length p"
    using qrPolynomial_0_shorter [of num] num(2) by simp
  moreover have "peval x (qrPolynomial num 0) = peval x p" if "peval x e = 0" for x
  proof -
    have "(\<Sum>i<length e. coef (e ! i) * x ^ (length p - 1 - i))
        = x ^ (length p - length e) * peval x e"
      unfolding peval_def sum_distrib_left
    proof (rule sum.cong)
      fix i assume "i \<in> {..<length e}"
      then have "length p - 1 - i = (length p - length e) + (length e - 1 - i)"
        using e(3) by simp
      then show "coef (e ! i) * x ^ (length p - 1 - i)
          = x ^ (length p - length e) * (coef (e ! i) * x ^ (length e - 1 - i))"
        by (simp add: power_add ac_simps)
    qed simp
    with num(2) that show ?thesis
      by (simp add: peval_qrPolynomial)
  qed
  ultimately show ?thesis
    using that num(2) by (simp add: byte_poly_qrPolynomial normal_qrPolynomial_0 holes_below_qrPolynomial_0)
qed

lemma poly_mod_short: "length p < length e \<Longrightarrow> poly_mod p e = Some (Inr p)"
  by (simp add: poly_mod.simps)

lemma poly_mod_step:
  "\<not> length p < length e \<Longrightarrow> mod_step p e = Inr p' \<Longrightarrow> poly_mod p e = poly_mod p' e"
  by (subst poly_mod.simps) simp

lemma poly_mod_correct:
  assumes e: "nonzero_poly e" "e \<noteq> []"
    and p: "byte_poly p" "holes_below (length e - 1) p" "normal_poly p"
  shows "\<exists>r. poly_mod p e = Some (Inr r) \<and> byte_poly r \<and> length r < length e \<and>
    (\<forall>x. peval x e = 0 \<longrightarrow> peval x r = peval x p)"
  using p
proof (induction "length p" arbitrary: p rule: less_induct)
  case less
  show ?case
  proof (cases "length p < length e")
    case True
    with less.prems show ?thesis by (auto simp: poly_mod_short)
  next
    case False
    have "nonzero_coef (getAt p 0)"
      by (rule leading_coef [OF less.prems]) (use False e(2) in \<open>cases e; simp\<close>)
    with False less.prems(1,2) e obtain p' where p': "mod_step p e = Inr p'" "byte_poly p'"
        "holes_below (length e - 1) p'" "normal_poly p'" "length p' < length p"
        "\<And>x. peval x e = 0 \<Longrightarrow> peval x p' = peval x p"
      by (metis mod_step_correct not_less)
    from less.hyps [OF p'(5,2,3,4)] p'(6) show ?thesis
      by (auto simp: poly_mod_step [OF False p'(1)])
  qed
qed

lemma poly_mod_data:
  assumes "\<forall>d\<in>set data. is_byte d" "nonzero_poly e" "length e = Suc k"
  shows "\<exists>r. poly_mod (qrPolynomial (map Some data) k) e = Some (Inr r) \<and> byte_poly r \<and> length r \<le> k \<and>
    (\<forall>x. peval x e = 0 \<longrightarrow> peval x r = peval x (map Some data) * x ^ k)"
proof -
  let ?p = "qrPolynomial (map Some data) k"
  have "byte_poly ?p"
    using assms(1) by (intro byte_poly_qrPolynomial) (simp add: list_all_iff)
  moreover have "holes_below (length e - 1) ?p"
    using assms(3)
    by (auto simp: holes_below_def qrPolynomial_def nth_append dropWhile_eq_drop)
  moreover have "normal_poly ?p"
    by (rule normal_qrPolynomial)
  moreover have "e \<noteq> []" using assms(3) by auto
  ultimately obtain r where "poly_mod ?p e = Some (Inr r)" "byte_poly r" "length r < length e"
      "\<forall>x. peval x e = 0 \<longrightarrow> peval x r = peval x ?p"
    using poly_mod_correct assms(2) by blast
  with assms(3) show ?thesis
    by (auto simp: peval_qrPolynomial)
qed

text \<open>
  C25: dividing terminates. For a dividend \<open>qrPolynomial(data, k)\<close> with data bytes and a divisor of
  k + 1 nonzero coefficients, \<open>mod\<close> returns, throws nothing, its result has at most k
  coefficients, and it takes the same value as the dividend at every root of the divisor.
\<close>

theorem poly_mod_remainder:
  assumes "\<forall>d\<in>set data. is_byte d" "nonzero_poly e" "length e = Suc k"
  shows "\<exists>r. poly_mod (qrPolynomial (map Some data) k) e = Some (Inr r) \<and> byte_poly r \<and> length r \<le> k \<and>
    (\<forall>x. peval x e = 0 \<longrightarrow> peval x r = peval x (map Some data) * x ^ k)"
  using assms by (rule poly_mod_data)

theorem poly_mod_remainder_witness:
  "\<exists>r. poly_mod (qrPolynomial (map Some [0, 32, 91]) 2) [Some 1, Some 3, Some 2] = Some (Inr r) \<and>
    byte_poly r \<and> length r \<le> 2 \<and>
    (\<forall>x. peval x [Some 1, Some 3, Some 2] = 0 \<longrightarrow>
      peval x r = peval x (map Some [0, 32, 91]) * x ^ 2)"
  by (rule poly_mod_remainder) (simp_all add: is_byte_def)

end
