(* ===== verification/QR_Generator.thy ===== *)
theory QR_Generator
  imports QR_Polynomial
begin

text \<open>
  \<open>QRUtil.getErrorCorrectPolynomial\<close> of \<open>examples/chat/vendor/qrcode.js\<close>: the Reed-Solomon
  generator polynomials, their roots, and that the code builds every one it needs.
\<close>

definition getErrorCorrectPolynomial :: "nat \<Rightarrow> js_poly result" where
  "getErrorCorrectPolynomial errorCorrectLength =
     rfold (\<lambda>i a. multiply a (qrPolynomial [Some 1, gexp (Some (int i))] 0))
       [0..<errorCorrectLength] (qrPolynomial [Some 1] 0)"

subsection \<open>The generator polynomials\<close>

text \<open>
  The generators of degree 0 to 30, which covers every error correction length of the block
  table. \<open>multiply\<close> throws on a zero coefficient, so that none of these has one is part of what
  makes the code run; it is established by running the multiplications.
\<close>

definition generator_literals :: "int list list" where
  "generator_literals =
    [[1],
     [1, 1],
     [1, 3, 2],
     [1, 7, 14, 8],
     [1, 15, 54, 120, 64],
     [1, 31, 198, 63, 147, 116],
     [1, 63, 1, 218, 32, 227, 38],
     [1, 127, 122, 154, 164, 11, 68, 117],
     [1, 255, 11, 81, 54, 239, 173, 200, 24],
     [1, 226, 207, 158, 245, 235, 164, 232, 197, 37],
     [1, 216, 194, 159, 111, 199, 94, 95, 113, 157, 193],
     [1, 172, 130, 163, 50, 123, 219, 162, 248, 144, 116, 160],
     [1, 68, 119, 67, 118, 220, 31, 7, 84, 92, 127, 213, 97],
     [1, 137, 73, 227, 17, 177, 17, 52, 13, 46, 43, 83, 132, 120],
     [1, 14, 54, 114, 70, 174, 151, 43, 158, 195, 127, 166, 210, 234, 163],
     [1, 29, 196, 111, 163, 112, 74, 10, 105, 105, 139, 132, 151, 32, 134, 26],
     [1, 59, 13, 104, 189, 68, 209, 30, 8, 163, 65, 41, 229, 98, 50, 36, 59],
     [1, 119, 66, 83, 120, 119, 22, 197, 83, 249, 41, 143, 134, 85, 53, 125, 99, 79],
     [1, 239, 251, 183, 113, 149, 175, 199, 215, 240, 220, 73, 82, 173, 75, 32, 67, 217, 146],
     [1, 194, 8, 26, 146, 20, 223, 187, 152, 85, 115, 238, 133, 146, 109, 173, 138, 33, 172, 179],
     [1, 152, 185, 240, 5, 111, 99, 6, 220, 112, 150, 69, 36, 187, 22, 228, 198, 121, 121, 165,
      174],
     [1, 44, 243, 13, 131, 49, 132, 194, 67, 214, 28, 89, 124, 82, 158, 244, 37, 236, 142, 82,
      255, 89],
     [1, 89, 179, 131, 176, 182, 244, 19, 189, 69, 40, 28, 137, 29, 123, 67, 253, 86, 218, 230,
      26, 145, 245],
     [1, 179, 68, 154, 163, 140, 136, 190, 152, 25, 85, 19, 3, 196, 27, 113, 198, 18, 130, 2,
      120, 93, 41, 71],
     [1, 122, 118, 169, 70, 178, 237, 216, 102, 115, 150, 229, 73, 130, 72, 61, 43, 206, 1, 237,
      247, 127, 217, 144, 117],
     [1, 245, 49, 228, 53, 215, 6, 205, 210, 38, 82, 56, 80, 97, 139, 81, 134, 126, 168, 98,
      226, 125, 23, 171, 173, 193],
     [1, 246, 51, 183, 4, 136, 98, 199, 152, 77, 56, 206, 24, 145, 40, 209, 117, 233, 42, 135,
      68, 70, 144, 146, 77, 43, 94],
     [1, 240, 61, 29, 145, 144, 117, 150, 48, 58, 139, 94, 134, 193, 105, 33, 169, 202, 102, 123,
      113, 195, 25, 213, 6, 152, 164, 217],
     [1, 252, 9, 28, 13, 18, 251, 208, 150, 103, 174, 100, 41, 167, 12, 247, 56, 117, 119, 233,
      127, 181, 100, 121, 147, 176, 74, 58, 197],
     [1, 228, 193, 196, 48, 170, 86, 80, 217, 54, 143, 79, 32, 88, 255, 87, 24, 15, 251, 85,
      82, 201, 58, 112, 191, 153, 108, 132, 143, 170],
     [1, 212, 246, 77, 73, 195, 192, 75, 98, 5, 70, 103, 177, 22, 217, 138, 51, 181, 246, 72,
      25, 18, 46, 228, 74, 216, 195, 11, 106, 130, 150]]"

fun generator_chain :: "int \<Rightarrow> int list list \<Rightarrow> bool" where
  "generator_chain i (g # h # gs) \<longleftrightarrow>
     multiply (map Some g) (qrPolynomial [Some 1, gexp (Some i)] 0) = Inr (map Some h) \<and>
     generator_chain (i + 1) (h # gs)"
| "generator_chain i _ \<longleftrightarrow> True"

lemma generator_chain_nth:
  "generator_chain i gs \<Longrightarrow> Suc k < length gs \<Longrightarrow>
   multiply (map Some (gs ! k)) (qrPolynomial [Some 1, gexp (Some (i + int k))] 0)
     = Inr (map Some (gs ! Suc k))"
proof (induction i gs arbitrary: k rule: generator_chain.induct)
  case (1 i g h gs)
  then show ?case
    by (cases k) (auto simp: add.assoc)
qed simp_all

lemma generator_literals_chain: "generator_chain 0 generator_literals"
  by (simp add: generator_literals_def multiply_def qrPolynomial_def upt_rec table_product_def
      xor_at_def getAt_def glog_values gexp_values gexp_wrap_values js_xor_small)

lemma generator_literals_nonzero:
  "list_all (\<lambda>g. g \<noteq> [] \<and> hd g = 1 \<and> nonzero_poly (map Some g)) generator_literals"
  by (simp add: generator_literals_def is_byte_def)

lemma generator_literals_length: "map length generator_literals = [1..<32]"
  by (simp add: generator_literals_def upt_rec)

lemma generator_literal:
  assumes "k \<le> 30"
  shows "length (generator_literals ! k) = Suc k" "hd (generator_literals ! k) = 1"
    "nonzero_poly (map Some (generator_literals ! k))"
proof -
  have len: "length generator_literals = 31"
    using arg_cong [OF generator_literals_length, of length] by simp
  have "map length generator_literals ! k = [1..<32] ! k"
    by (simp only: generator_literals_length)
  with assms len show "length (generator_literals ! k) = Suc k"
    by (simp add: nth_upt)
  show "hd (generator_literals ! k) = 1" "nonzero_poly (map Some (generator_literals ! k))"
    using generator_literals_nonzero assms len by (simp_all add: list_all_length [of _ generator_literals])
qed

lemma getErrorCorrectPolynomial_literal:
  "k \<le> 30 \<Longrightarrow> getErrorCorrectPolynomial k = Inr (map Some (generator_literals ! k))"
proof (induction k)
  case 0
  show ?case by (simp add: getErrorCorrectPolynomial_def generator_literals_def qrPolynomial_def)
next
  case (Suc k)
  have "length generator_literals = 31"
    using arg_cong [OF generator_literals_length, of length] by simp
  then have "multiply (map Some (generator_literals ! k)) (qrPolynomial [Some 1, gexp (Some (int k))] 0)
      = Inr (map Some (generator_literals ! Suc k))"
    using generator_chain_nth [OF generator_literals_chain, of k] Suc.prems by simp
  moreover have "getErrorCorrectPolynomial k = Inr (map Some (generator_literals ! k))"
    using Suc by simp
  ultimately show ?case
    unfolding getErrorCorrectPolynomial_def by simp
qed

text \<open>
  Multiplying by (x + alpha^i) adds the root alpha^i and keeps the others, so the generator of
  degree k vanishes at alpha^0 .. alpha^(k-1).
\<close>

lemma generator_roots:
  "k \<le> 30 \<Longrightarrow> j < k \<Longrightarrow> peval (alpha ^ j) (map Some (generator_literals ! k)) = 0"
proof (induction k)
  case (Suc k)
  let ?g = "map Some (generator_literals ! k)"
  obtain e where e: "gexp (Some (int k)) = Some e" "is_byte e" "e \<noteq> 0" "gf e = alpha ^ k"
  proof -
    have "nat (int k mod 255) = k" using Suc.prems by simp
    then show ?thesis using that gexp_Some [of "int k"] by metis
  qed
  have lin: "qrPolynomial [Some 1, gexp (Some (int k))] 0 = [Some 1, Some e]"
    by (simp add: qrPolynomial_def e)
  have "nonzero_poly ?g" "?g \<noteq> []"
    using generator_literal [of k] Suc.prems by auto
  moreover have "nonzero_poly [Some 1, Some e]"
    using e by (simp add: is_byte_def)
  ultimately obtain r where r: "multiply ?g [Some 1, Some e] = Inr r"
      "\<And>x. peval x r = peval x ?g * peval x [Some 1, Some e]"
    by (metis multiply_correct list.distinct(1))
  have "multiply ?g [Some 1, Some e] = Inr (map Some (generator_literals ! Suc k))"
    using getErrorCorrectPolynomial_literal [of "Suc k"] getErrorCorrectPolynomial_literal [of k]
      Suc.prems lin unfolding getErrorCorrectPolynomial_def by simp
  with r have "peval x (map Some (generator_literals ! Suc k)) = peval x ?g * (x + alpha ^ k)" for x
    by (simp add: peval_Cons e gf_1)
  with Suc show ?case
    by (cases "j = k") auto
qed simp

end
