(* ===== verification/QR_RSBlock.thy ===== *)
theory QR_RSBlock
  imports Prelude
begin

text \<open>
  \<open>QRRSBlock\<close> and \<open>QRErrorCorrectionLevel\<close> of \<open>examples/chat/vendor/qrcode.js\<close>: how the
  codewords of each symbol version and error correction level are cut into Reed-Solomon blocks.
\<close>

datatype ec_level = EC_L | EC_M | EC_Q | EC_H

fun QRErrorCorrectionLevel :: "ec_level \<Rightarrow> int" where
  "QRErrorCorrectionLevel EC_L = 1"
| "QRErrorCorrectionLevel EC_M = 0"
| "QRErrorCorrectionLevel EC_Q = 3"
| "QRErrorCorrectionLevel EC_H = 2"

text \<open>One line per version, levels L, M, Q, H; a row is triples of count, total and data codewords.\<close>

definition RS_ROWS_1_20 :: "nat list list" where
  "RS_ROWS_1_20 = [
    [1, 26, 19], [1, 26, 16], [1, 26, 13], [1, 26, 9],
    [1, 44, 34], [1, 44, 28], [1, 44, 22], [1, 44, 16],
    [1, 70, 55], [1, 70, 44], [2, 35, 17], [2, 35, 13],
    [1, 100, 80], [2, 50, 32], [2, 50, 24], [4, 25, 9],
    [1, 134, 108], [2, 67, 43], [2, 33, 15, 2, 34, 16], [2, 33, 11, 2, 34, 12],
    [2, 86, 68], [4, 43, 27], [4, 43, 19], [4, 43, 15],
    [2, 98, 78], [4, 49, 31], [2, 32, 14, 4, 33, 15], [4, 39, 13, 1, 40, 14],
    [2, 121, 97], [2, 60, 38, 2, 61, 39], [4, 40, 18, 2, 41, 19], [4, 40, 14, 2, 41, 15],
    [2, 146, 116], [3, 58, 36, 2, 59, 37], [4, 36, 16, 4, 37, 17], [4, 36, 12, 4, 37, 13],
    [2, 86, 68, 2, 87, 69], [4, 69, 43, 1, 70, 44], [6, 43, 19, 2, 44, 20], [6, 43, 15, 2, 44, 16],
    [4, 101, 81], [1, 80, 50, 4, 81, 51], [4, 50, 22, 4, 51, 23], [3, 36, 12, 8, 37, 13],
    [2, 116, 92, 2, 117, 93], [6, 58, 36, 2, 59, 37], [4, 46, 20, 6, 47, 21], [7, 42, 14, 4, 43, 15],
    [4, 133, 107], [8, 59, 37, 1, 60, 38], [8, 44, 20, 4, 45, 21], [12, 33, 11, 4, 34, 12],
    [3, 145, 115, 1, 146, 116], [4, 64, 40, 5, 65, 41], [11, 36, 16, 5, 37, 17], [11, 36, 12, 5, 37, 13],
    [5, 109, 87, 1, 110, 88], [5, 65, 41, 5, 66, 42], [5, 54, 24, 7, 55, 25], [11, 36, 12, 7, 37, 13],
    [5, 122, 98, 1, 123, 99], [7, 73, 45, 3, 74, 46], [15, 43, 19, 2, 44, 20], [3, 45, 15, 13, 46, 16],
    [1, 135, 107, 5, 136, 108], [10, 74, 46, 1, 75, 47], [1, 50, 22, 15, 51, 23], [2, 42, 14, 17, 43, 15],
    [5, 150, 120, 1, 151, 121], [9, 69, 43, 4, 70, 44], [17, 50, 22, 1, 51, 23], [2, 42, 14, 19, 43, 15],
    [3, 141, 113, 4, 142, 114], [3, 70, 44, 11, 71, 45], [17, 47, 21, 4, 48, 22], [9, 39, 13, 16, 40, 14],
    [3, 135, 107, 5, 136, 108], [3, 67, 41, 13, 68, 42], [15, 54, 24, 5, 55, 25], [15, 43, 15, 10, 44, 16]]"

definition RS_ROWS_21_40 :: "nat list list" where
  "RS_ROWS_21_40 = [
    [4, 144, 116, 4, 145, 117], [17, 68, 42], [17, 50, 22, 6, 51, 23], [19, 46, 16, 6, 47, 17],
    [2, 139, 111, 7, 140, 112], [17, 74, 46], [7, 54, 24, 16, 55, 25], [34, 37, 13],
    [4, 151, 121, 5, 152, 122], [4, 75, 47, 14, 76, 48], [11, 54, 24, 14, 55, 25], [16, 45, 15, 14, 46, 16],
    [6, 147, 117, 4, 148, 118], [6, 73, 45, 14, 74, 46], [11, 54, 24, 16, 55, 25], [30, 46, 16, 2, 47, 17],
    [8, 132, 106, 4, 133, 107], [8, 75, 47, 13, 76, 48], [7, 54, 24, 22, 55, 25], [22, 45, 15, 13, 46, 16],
    [10, 142, 114, 2, 143, 115], [19, 74, 46, 4, 75, 47], [28, 50, 22, 6, 51, 23], [33, 46, 16, 4, 47, 17],
    [8, 152, 122, 4, 153, 123], [22, 73, 45, 3, 74, 46], [8, 53, 23, 26, 54, 24], [12, 45, 15, 28, 46, 16],
    [3, 147, 117, 10, 148, 118], [3, 73, 45, 23, 74, 46], [4, 54, 24, 31, 55, 25], [11, 45, 15, 31, 46, 16],
    [7, 146, 116, 7, 147, 117], [21, 73, 45, 7, 74, 46], [1, 53, 23, 37, 54, 24], [19, 45, 15, 26, 46, 16],
    [5, 145, 115, 10, 146, 116], [19, 75, 47, 10, 76, 48], [15, 54, 24, 25, 55, 25], [23, 45, 15, 25, 46, 16],
    [13, 145, 115, 3, 146, 116], [2, 74, 46, 29, 75, 47], [42, 54, 24, 1, 55, 25], [23, 45, 15, 28, 46, 16],
    [17, 145, 115], [10, 74, 46, 23, 75, 47], [10, 54, 24, 35, 55, 25], [19, 45, 15, 35, 46, 16],
    [17, 145, 115, 1, 146, 116], [14, 74, 46, 21, 75, 47], [29, 54, 24, 19, 55, 25], [11, 45, 15, 46, 46, 16],
    [13, 145, 115, 6, 146, 116], [14, 74, 46, 23, 75, 47], [44, 54, 24, 7, 55, 25], [59, 46, 16, 1, 47, 17],
    [12, 151, 121, 7, 152, 122], [12, 75, 47, 26, 76, 48], [39, 54, 24, 14, 55, 25], [22, 45, 15, 41, 46, 16],
    [6, 151, 121, 14, 152, 122], [6, 75, 47, 34, 76, 48], [46, 54, 24, 10, 55, 25], [2, 45, 15, 64, 46, 16],
    [17, 152, 122, 4, 153, 123], [29, 74, 46, 14, 75, 47], [49, 54, 24, 10, 55, 25], [24, 45, 15, 46, 46, 16],
    [4, 152, 122, 18, 153, 123], [13, 74, 46, 32, 75, 47], [48, 54, 24, 14, 55, 25], [42, 45, 15, 32, 46, 16],
    [20, 147, 117, 4, 148, 118], [40, 75, 47, 7, 76, 48], [43, 54, 24, 22, 55, 25], [10, 45, 15, 67, 46, 16],
    [19, 148, 118, 6, 149, 119], [18, 75, 47, 31, 76, 48], [34, 54, 24, 34, 55, 25], [20, 45, 15, 61, 46, 16]]"

definition RS_BLOCK_TABLE :: "nat list list" where
  "RS_BLOCK_TABLE = RS_ROWS_1_20 @ RS_ROWS_21_40"

record rs_block =
  totalCount :: nat
  dataCount :: nat

definition ecCount :: "rs_block \<Rightarrow> nat" where
  "ecCount b = totalCount b - dataCount b"

text \<open>The level is \<open>undefined\<close> (\<open>None\<close>) when the caller passed a letter that is not L, M, Q or H.\<close>

definition getRsBlockTable :: "int \<Rightarrow> int option \<Rightarrow> nat list option" where
  "getRsBlockTable typeNumber errorCorrectionLevel =
     (if errorCorrectionLevel = Some (QRErrorCorrectionLevel EC_L)
        then js_index RS_BLOCK_TABLE ((typeNumber - 1) * 4 + 0)
      else if errorCorrectionLevel = Some (QRErrorCorrectionLevel EC_M)
        then js_index RS_BLOCK_TABLE ((typeNumber - 1) * 4 + 1)
      else if errorCorrectionLevel = Some (QRErrorCorrectionLevel EC_Q)
        then js_index RS_BLOCK_TABLE ((typeNumber - 1) * 4 + 2)
      else if errorCorrectionLevel = Some (QRErrorCorrectionLevel EC_H)
        then js_index RS_BLOCK_TABLE ((typeNumber - 1) * 4 + 3)
      else None)"

fun rs_row_blocks :: "nat list \<Rightarrow> rs_block list" where
  "rs_row_blocks (count # tot # data # rest) =
     replicate count \<lparr>totalCount = tot, dataCount = data\<rparr> @ rs_row_blocks rest"
| "rs_row_blocks _ = []"

definition getRSBlocks :: "int \<Rightarrow> int option \<Rightarrow> rs_block list result" where
  "getRSBlocks typeNumber errorCorrectionLevel =
     (case getRsBlockTable typeNumber errorCorrectionLevel of
        None \<Rightarrow> Inl (BadRSBlock typeNumber errorCorrectionLevel)
      | Some rsBlock \<Rightarrow> Inr (rs_row_blocks rsBlock))"

subsection \<open>The table against the standard's module count\<close>

text \<open>
  Modules of a version \<open>v\<close> symbol left for data and error correction once finder, timing,
  alignment, format and version patterns are placed (ISO/IEC 18004).
\<close>

definition raw_modules :: "nat \<Rightarrow> nat" where
  "raw_modules v = (16 * v + 128) * v + 64
     - (if 2 \<le> v then (25 * (v div 7 + 2) - 10) * (v div 7 + 2) - 55 else 0)
     - (if 7 \<le> v then 36 else 0)"

fun row_total :: "nat list \<Rightarrow> nat" where
  "row_total (count # tot # data # rest) = count * tot + row_total rest"
| "row_total _ = 0"

fun row_data :: "nat list \<Rightarrow> nat" where
  "row_data (count # tot # data # rest) = count * data + row_data rest"
| "row_data _ = 0"

text \<open>
  All blocks of a row have the same number of error correction codewords, at least 7 and at most
  30, fit the field, and the longer blocks come last.
\<close>

fun row_shape :: "nat \<Rightarrow> nat list \<Rightarrow> bool" where
  "row_shape ec [] \<longleftrightarrow> True"
| "row_shape ec (count # tot # data # rest) \<longleftrightarrow>
     0 < count \<and> 0 < data \<and> tot = data + ec \<and> 7 \<le> ec \<and> ec \<le> 30 \<and> tot \<le> 255 \<and> row_shape ec rest"
| "row_shape ec _ \<longleftrightarrow> False"

fun row_ec :: "nat list \<Rightarrow> nat" where
  "row_ec (count # tot # data # rest) = tot - data"
| "row_ec _ = 0"

definition row_ok :: "nat \<Rightarrow> nat list \<Rightarrow> bool" where
  "row_ok v row \<longleftrightarrow> row \<noteq> [] \<and> row_shape (row_ec row) row \<and> row_total row = raw_modules v div 8"

fun table_ok :: "nat \<Rightarrow> nat list list \<Rightarrow> bool" where
  "table_ok v (l # m # q # h # rest) \<longleftrightarrow>
     row_ok v l \<and> row_ok v m \<and> row_ok v q \<and> row_ok v h \<and>
     row_data h < row_data q \<and> row_data q < row_data m \<and> row_data m < row_data l \<and>
     table_ok (Suc v) rest"
| "table_ok v [] \<longleftrightarrow> True"
| "table_ok v _ \<longleftrightarrow> False"

lemma RS_BLOCK_TABLE_ok: "table_ok 1 RS_BLOCK_TABLE"
  by (simp add: RS_BLOCK_TABLE_def RS_ROWS_1_20_def RS_ROWS_21_40_def row_ok_def raw_modules_def)

lemma length_RS_BLOCK_TABLE [simp]: "length RS_BLOCK_TABLE = 160"
  by (simp add: RS_BLOCK_TABLE_def RS_ROWS_1_20_def RS_ROWS_21_40_def)

lemma table_ok_nth:
  "table_ok v t \<Longrightarrow> 4 * k + 3 < length t \<Longrightarrow> j < 4 \<Longrightarrow> row_ok (v + k) (t ! (4 * k + j))"
proof (induction v t arbitrary: k rule: table_ok.induct)
  case (1 v l m q h rest)
  show ?case
  proof (cases k)
    case 0
    have "j = 0 \<or> j = 1 \<or> j = 2 \<or> j = 3" using "1.prems"(3) by linarith
    with 0 "1.prems"(1) show ?thesis by auto
  next
    case (Suc n)
    with 1 have "row_ok (Suc v + n) (rest ! (4 * n + j))" by simp
    with Suc show ?thesis by (simp add: numeral_eq_Suc)
  qed
qed simp_all

fun level_index :: "ec_level \<Rightarrow> nat" where
  "level_index EC_L = 0" | "level_index EC_M = 1" | "level_index EC_Q = 2" | "level_index EC_H = 3"

lemma getRsBlockTable_index:
  assumes "1 \<le> v" "v \<le> 40"
  shows "getRsBlockTable (int v) (Some (QRErrorCorrectionLevel lev))
    = Some (RS_BLOCK_TABLE ! (4 * (v - 1) + level_index lev))"
proof -
  let ?i = "4 * (v - 1) + level_index lev"
  have "(int v - 1) * 4 + int (level_index lev) = int ?i"
    using assms by (simp add: of_nat_diff)
  moreover have "level_index lev < 4" by (cases lev) simp_all
  then have "?i < 160" using assms by linarith
  ultimately have "js_index RS_BLOCK_TABLE ((int v - 1) * 4 + int (level_index lev))
      = Some (RS_BLOCK_TABLE ! ?i)"
    by (simp add: js_index_def del: of_nat_add of_nat_mult of_nat_diff)
  then show ?thesis
    by (cases lev) (simp_all add: getRsBlockTable_def)
qed

lemma getRsBlockTable_row:
  assumes "1 \<le> v" "v \<le> 40"
  obtains row where "getRsBlockTable (int v) (Some (QRErrorCorrectionLevel lev)) = Some row" "row_ok v row"
proof -
  have "level_index lev < 4" by (cases lev) simp_all
  then have "row_ok v (RS_BLOCK_TABLE ! (4 * (v - 1) + level_index lev))"
    using table_ok_nth [OF RS_BLOCK_TABLE_ok, of "v - 1" "level_index lev"] assms by simp
  then show ?thesis using that getRsBlockTable_index [OF assms] by blast
qed

lemma sum_rs_row_blocks:
  "sum_list (map totalCount (rs_row_blocks row)) = row_total row"
  "sum_list (map dataCount (rs_row_blocks row)) = row_data row"
  by (induction row rule: rs_row_blocks.induct) (simp_all add: sum_list_replicate)

lemma rs_row_blocks_shape:
  "row_shape ec row \<Longrightarrow> b \<in> set (rs_row_blocks row) \<Longrightarrow>
   0 < dataCount b \<and> totalCount b = dataCount b + ec \<and> 7 \<le> ec \<and> ec \<le> 30 \<and> totalCount b \<le> 255"
  by (induction ec row rule: row_shape.induct) (auto split: if_splits)

lemma rs_row_blocks_nonempty: "row_shape ec row \<Longrightarrow> row \<noteq> [] \<Longrightarrow> rs_row_blocks row \<noteq> []"
  by (cases "(ec, row)" rule: row_shape.cases) auto

lemma getRSBlocks_table:
  assumes "1 \<le> v" "v \<le> 40"
  shows "\<exists>blocks ec. getRSBlocks (int v) (Some (QRErrorCorrectionLevel lev)) = Inr blocks \<and> blocks \<noteq> [] \<and>
    sum_list (map totalCount blocks) = raw_modules v div 8 \<and> 7 \<le> ec \<and> ec \<le> 30 \<and>
    (\<forall>b\<in>set blocks. 0 < dataCount b \<and> totalCount b = dataCount b + ec \<and> totalCount b \<le> 255)"
proof -
  obtain row where row: "getRsBlockTable (int v) (Some (QRErrorCorrectionLevel lev)) = Some row" "row_ok v row"
    using getRsBlockTable_row [OF assms] by blast
  then have shape: "row_shape (row_ec row) row" "row \<noteq> []" "row_total row = raw_modules v div 8"
    by (simp_all add: row_ok_def)
  have ne: "rs_row_blocks row \<noteq> []" using rs_row_blocks_nonempty shape by blast
  then have "7 \<le> row_ec row \<and> row_ec row \<le> 30"
    using rs_row_blocks_shape [OF shape(1), of "hd (rs_row_blocks row)"] by simp
  moreover have "\<forall>b\<in>set (rs_row_blocks row). 0 < dataCount b \<and>
      totalCount b = dataCount b + row_ec row \<and> totalCount b \<le> 255"
    using rs_row_blocks_shape [OF shape(1)] by blast
  moreover have "getRSBlocks (int v) (Some (QRErrorCorrectionLevel lev)) = Inr (rs_row_blocks row)"
    using row(1) by (simp add: getRSBlocks_def)
  moreover have "sum_list (map totalCount (rs_row_blocks row)) = raw_modules v div 8"
    using shape(3) by (simp add: sum_rs_row_blocks)
  ultimately show ?thesis
    using ne by blast
qed

text \<open>
  C34: for every version from 1 to 40 and every level the block table yields blocks that fill the
  symbol exactly: their codewords are the standard's raw module count divided by 8, every block
  has at least one data codeword, all have the same 7 to 30 error correction codewords, and none is
  longer than the 255 symbols a GF(256) Reed-Solomon code allows.
\<close>

theorem getRSBlocks_fill_symbol:
  assumes "1 \<le> v" "v \<le> 40"
  shows "\<exists>blocks ec. getRSBlocks (int v) (Some (QRErrorCorrectionLevel lev)) = Inr blocks \<and> blocks \<noteq> [] \<and>
    sum_list (map totalCount blocks) = raw_modules v div 8 \<and> 7 \<le> ec \<and> ec \<le> 30 \<and>
    (\<forall>b\<in>set blocks. 0 < dataCount b \<and> totalCount b = dataCount b + ec \<and> totalCount b \<le> 255)"
  using assms by (rule getRSBlocks_table)

theorem getRSBlocks_fill_symbol_witness:
  "\<exists>blocks ec. getRSBlocks (int 5) (Some (QRErrorCorrectionLevel EC_Q)) = Inr blocks \<and> blocks \<noteq> [] \<and>
    sum_list (map totalCount blocks) = raw_modules 5 div 8 \<and> 7 \<le> ec \<and> ec \<le> 30 \<and>
    (\<forall>b\<in>set blocks. 0 < dataCount b \<and> totalCount b = dataCount b + ec \<and> totalCount b \<le> 255)"
  by (rule getRSBlocks_fill_symbol) simp_all

end
