(* ===== verification/QR_Codewords.thy ===== *)
theory QR_Codewords
  imports QR_Generator QR_RSBlock QR_BitBuffer
begin

text \<open>
  \<open>createBytes\<close> of \<open>examples/chat/vendor/qrcode.js\<close>: the data bytes cut into blocks, each block
  followed by its Reed-Solomon remainder, and the blocks interleaved column by column. An entry of
  the result may be \<open>undefined\<close>: the remainder of an all-zero block is an array of holes.
\<close>

subsection \<open>The operations\<close>

definition block_data :: "bit_buffer \<Rightarrow> nat \<Rightarrow> nat \<Rightarrow> int list" where
  "block_data buffer offset dcCount =
     map (\<lambda>i. js_and 0xff (num_or_0 (js_index (buffer_bytes buffer) (int (i + offset))))) [0..<dcCount]"

definition block_ec :: "int list \<Rightarrow> nat \<Rightarrow> int option list run" where
  "block_ec dcdata ec =
     run_bind (Some (getErrorCorrectPolynomial ec)) (\<lambda>rsPoly.
     run_bind (poly_mod (qrPolynomial (map Some dcdata) (length rsPoly - 1)) rsPoly) (\<lambda>modPoly.
       Some (Inr (map (\<lambda>i.
         let modIndex = int i + int (length modPoly) - int (length rsPoly - 1)
         in if 0 \<le> modIndex then getAt modPoly (nat modIndex) else Some 0) [0..<length rsPoly - 1]))))"

fun make_blocks :: "bit_buffer \<Rightarrow> nat \<Rightarrow> rs_block list \<Rightarrow> (int list \<times> int option list) list run" where
  "make_blocks buffer offset [] = Some (Inr [])"
| "make_blocks buffer offset (b # bs) =
     (let dcdata = block_data buffer offset (dataCount b)
      in run_bind (block_ec dcdata (ecCount b)) (\<lambda>ecdata.
         run_bind (make_blocks buffer (offset + dataCount b) bs) (\<lambda>rest.
           Some (Inr ((dcdata, ecdata) # rest)))))"

text \<open>The two output loops: for each column, the entry of every block that is long enough.\<close>

definition interleave :: "nat \<Rightarrow> 'a list list \<Rightarrow> 'a list" where
  "interleave maxCount blocks =
     concat (map (\<lambda>i. concat (map (\<lambda>b. if i < length b then [b ! i] else []) blocks)) [0..<maxCount])"

definition createBytes :: "bit_buffer \<Rightarrow> rs_block list \<Rightarrow> int option list run" where
  "createBytes buffer rsBlocks =
     run_bind (make_blocks buffer 0 rsBlocks) (\<lambda>blocks.
       let maxDcCount = fold (\<lambda>b m. max m (dataCount b)) rsBlocks 0;
           maxEcCount = fold (\<lambda>b m. max m (ecCount b)) rsBlocks 0;
           totalCodeCount = sum_list (map totalCount rsBlocks);
           data = interleave maxDcCount (map (\<lambda>(dc, ec). map Some dc) blocks)
                  @ interleave maxEcCount (map (\<lambda>(dc, ec). ec) blocks)
       in Some (Inr (data @ replicate (totalCodeCount - length data) None)))"

subsection \<open>One block is a codeword\<close>

text \<open>The codeword of a block as a polynomial: data bytes, then the remainder.\<close>

definition rs_codeword :: "nat \<Rightarrow> js_poly \<Rightarrow> bool" where
  "rs_codeword ec p \<longleftrightarrow> (\<forall>j<ec. peval (alpha ^ j) p = 0)"

lemma peval_replicate_zero [simp]: "peval x (replicate n (Some 0)) = 0"
  by (induction n) (simp_all add: peval_Cons)

lemma ec_array:
  assumes "length r \<le> k"
  shows "map (\<lambda>i. let modIndex = int i + int (length r) - int k
      in if 0 \<le> modIndex then getAt r (nat modIndex) else Some 0) [0..<k] = replicate (k - length r) (Some 0) @ r"
  using assms by (intro nth_equalityI) (auto simp: Let_def nth_append getAt_def nat_diff_distrib intro!: arg_cong [of _ _ "(!) r"])

lemma block_ec_correct:
  assumes "list_all is_byte dcdata" "ec \<le> 30"
  obtains e where "block_ec dcdata ec = Some (Inr e)" "length e = ec" "byte_poly e"
    "rs_codeword ec (map Some dcdata @ e)"
proof -
  let ?g = "map Some (generator_literals ! ec)"
  have g: "getErrorCorrectPolynomial ec = Inr ?g" "length ?g = Suc ec" "nonzero_poly ?g"
    using getErrorCorrectPolynomial_literal generator_literal assms(2) by simp_all
  have bytes: "\<forall>d\<in>set dcdata. is_byte d" using assms(1) by (simp add: list_all_iff)
  obtain r where r: "poly_mod (qrPolynomial (map Some dcdata) ec) ?g = Some (Inr r)" "byte_poly r"
      "length r \<le> ec" "\<forall>x. peval x ?g = 0 \<longrightarrow> peval x r = peval x (map Some dcdata) * x ^ ec"
    using poly_mod_data [OF bytes g(3,2)] by blast
  let ?e = "replicate (ec - length r) (Some 0) @ r"
  have len: "length ?e = ec" using r(3) by simp
  have "length ?g - 1 = ec" using g(2) by simp
  then have "block_ec dcdata ec = Some (Inr ?e)"
    by (simp only: block_ec_def g(1) run_bind_simps r(1) ec_array [OF r(3)])
  moreover have "rs_codeword ec (map Some dcdata @ ?e)"
    unfolding rs_codeword_def
  proof (intro allI impI)
    fix j assume "j < ec"
    then have "peval (alpha ^ j) ?g = 0" using generator_roots assms(2) by simp
    with r(4) have "peval (alpha ^ j) r = peval (alpha ^ j) (map Some dcdata) * (alpha ^ j) ^ ec" by simp
    then show "peval (alpha ^ j) (map Some dcdata @ ?e) = 0"
      by (simp only: peval_append len) (simp add: peval_append)
  qed
  moreover have "byte_poly ?e" using r(2) by (auto simp: list_all_iff is_byte_def)
  ultimately show ?thesis using that len by blast
qed

subsection \<open>A reader of the codeword sequence\<close>

text \<open>
  What a scanner does: the slots of the column order give back the blocks. \<open>slots\<close> lists the pairs
  of a position in a block and a block number in transmission order.
\<close>

definition slots :: "nat list \<Rightarrow> (nat \<times> nat) list" where
  "slots ns = concat (map (\<lambda>i. concat (map (\<lambda>r. if i < ns ! r then [(i, r)] else []) [0..<length ns]))
     [0..<fold max ns 0])"

definition deinterleave :: "nat list \<Rightarrow> 'a list \<Rightarrow> 'a list list" where
  "deinterleave ns stream =
     map (\<lambda>r. map (\<lambda>i. the (map_of (zip (slots ns) stream) (i, r))) [0..<ns ! r]) [0..<length ns]"

definition read_blocks :: "rs_block list \<Rightarrow> 'a list \<Rightarrow> ('a list \<times> 'a list) list" where
  "read_blocks rsBlocks stream =
     (let dc = map dataCount rsBlocks; ec = map ecCount rsBlocks
      in zip (deinterleave dc (take (sum_list dc) stream)) (deinterleave ec (drop (sum_list dc) stream)))"

lemma fold_max_le: "m \<le> fold max ns (m :: nat)"
  by (induction ns arbitrary: m) (simp, metis fold_simps(2) max.boundedE max.commute)

lemma le_fold_max: "n \<in> set ns \<Longrightarrow> n \<le> fold max ns (m :: nat)"
proof (induction ns arbitrary: m)
  case (Cons a ns)
  have "max a m \<le> fold max ns (max a m)" by (rule fold_max_le)
  with Cons show ?case by auto
qed simp

lemma fold_max_map: "fold (\<lambda>b m. max m (f b)) bs m = fold max (map f bs) (m :: nat)"
  by (induction bs arbitrary: m) (simp_all add: max.commute)

lemma set_slots: "(i, r) \<in> set (slots ns) \<longleftrightarrow> r < length ns \<and> i < ns ! r"
proof -
  have "i < fold max ns 0" if "r < length ns" "i < ns ! r"
    using le_fold_max [of "ns ! r" ns 0] that by simp
  then show ?thesis by (auto simp: slots_def split: if_splits)
qed

lemma interleave_slots:
  assumes "map length blocks = ns"
  shows "interleave (fold max ns 0) blocks = map (\<lambda>(i, r). blocks ! r ! i) (slots ns)"
proof -
  have "concat (map (\<lambda>b. if i < length b then [b ! i] else []) blocks)
      = map (\<lambda>(i, r). blocks ! r ! i) (concat (map (\<lambda>r. if i < ns ! r then [(i, r)] else []) [0..<length ns]))"
    for i
  proof -
    have "map (\<lambda>b. if i < length b then [b ! i] else []) blocks
        = map (\<lambda>r. if i < ns ! r then [blocks ! r ! i] else []) [0..<length ns]"
      using assms by (intro nth_equalityI) auto
    then show ?thesis by (simp add: map_concat comp_def if_distrib cong: if_cong)
  qed
  then show ?thesis by (simp add: interleave_def slots_def map_concat comp_def)
qed

lemma deinterleave_interleave:
  assumes "map length blocks = ns"
  shows "deinterleave ns (interleave (fold max ns 0) blocks) = blocks"
proof -
  have "map (\<lambda>i. the (map_of (zip (slots ns) (interleave (fold max ns 0) blocks)) (i, r))) [0..<ns ! r]
      = blocks ! r" if "r < length ns" for r
    using that assms
    by (intro nth_equalityI) (auto simp: interleave_slots map_of_zip_map set_slots)
  then show ?thesis
    using assms by (intro nth_equalityI) (auto simp: deinterleave_def)
qed

lemma length_slots: "length (slots ns) = sum_list ns"
proof -
  have "length (slots ns) = (\<Sum>i<fold max ns 0. \<Sum>r<length ns. if i < ns ! r then 1 else 0)"
    by (simp add: slots_def length_concat comp_def if_distrib interv_sum_list_conv_sum_set_nat
        atLeast0LessThan cong: if_cong)
  also have "\<dots> = (\<Sum>r<length ns. \<Sum>i<fold max ns 0. if i < ns ! r then 1 else 0)"
    by (rule sum.swap)
  also have "\<dots> = (\<Sum>r<length ns. ns ! r)"
  proof (rule sum.cong)
    fix r assume "r \<in> {..<length ns}"
    then have "{..<fold max ns 0} \<inter> {i. i < ns ! r} = {..<ns ! r}"
      using le_fold_max [of "ns ! r" ns 0] by auto
    then show "(\<Sum>i<fold max ns 0. if i < ns ! r then 1 else 0) = ns ! r"
      by (simp add: sum.If_cases)
  qed simp
  also have "\<dots> = sum_list ns" by (simp add: sum_list_sum_nth atLeast0LessThan)
  finally show ?thesis .
qed

lemma length_interleave:
  "map length blocks = ns \<Longrightarrow> length (interleave (fold max ns 0) blocks) = sum_list ns"
  by (simp add: interleave_slots length_slots)

lemma set_interleave:
  assumes "map length blocks = ns"
  shows "set (interleave (fold max ns 0) blocks) \<subseteq> \<Union> (set ` set blocks)"
  using assms by (auto simp: interleave_slots set_slots) (metis length_map nth_map nth_mem)

subsection \<open>All blocks\<close>

definition good_block :: "rs_block \<Rightarrow> int list \<times> int option list \<Rightarrow> bool" where
  "good_block b c \<longleftrightarrow> length (fst c) = dataCount b \<and> length (snd c) = ecCount b \<and>
     list_all is_byte (fst c) \<and> byte_poly (snd c) \<and> rs_codeword (ecCount b) (map Some (fst c) @ snd c)"

lemma js_255_and: "js_and 255 x = x mod 256"
  by (subst js_and_commute) (rule js_and_255)

lemma block_data_bytes: "list_all is_byte (block_data buffer off n)" "length (block_data buffer off n) = n"
  by (simp_all add: block_data_def list_all_iff js_255_and)

lemma block_data_slice:
  assumes "list_all is_byte (buffer_bytes buffer)" "off + n \<le> length (buffer_bytes buffer)"
  shows "block_data buffer off n = take n (drop off (buffer_bytes buffer))"
proof (rule nth_equalityI)
  fix i assume "i < length (block_data buffer off n)"
  then have i: "i < n" by (simp add: block_data_bytes)
  then have "is_byte (buffer_bytes buffer ! (i + off))"
    using assms by (auto simp: list_all_length)
  with i assms(2) show "block_data buffer off n ! i = take n (drop off (buffer_bytes buffer)) ! i"
    by (simp add: block_data_def js_index_def js_255_and is_byte_def add.commute [of off] flip: of_nat_add)
qed (use assms in \<open>simp add: block_data_bytes\<close>)

lemma make_blocks_correct:
  assumes "\<forall>b\<in>set bs. ecCount b \<le> 30"
  shows "\<exists>blocks. make_blocks buffer off bs = Some (Inr blocks) \<and> list_all2 good_block bs blocks \<and>
    (list_all is_byte (buffer_bytes buffer) \<and> length (buffer_bytes buffer) = off + sum_list (map dataCount bs)
      \<longrightarrow> concat (map fst blocks) = drop off (buffer_bytes buffer))"
  using assms
proof (induction bs arbitrary: off)
  case (Cons b bs)
  let ?dc = "block_data buffer off (dataCount b)"
  have "ecCount b \<le> 30" using Cons.prems by simp
  with block_data_bytes(1) obtain e where e: "block_ec ?dc (ecCount b) = Some (Inr e)"
      "length e = ecCount b" "byte_poly e" "rs_codeword (ecCount b) (map Some ?dc @ e)"
    by (rule block_ec_correct)
  from Cons obtain rest where rest: "make_blocks buffer (off + dataCount b) bs = Some (Inr rest)"
      "list_all2 good_block bs rest"
      "list_all is_byte (buffer_bytes buffer) \<and>
        length (buffer_bytes buffer) = off + dataCount b + sum_list (map dataCount bs)
        \<longrightarrow> concat (map fst rest) = drop (off + dataCount b) (buffer_bytes buffer)"
    by (metis list.set_intros(2))
  have "make_blocks buffer off (b # bs) = Some (Inr ((?dc, e) # rest))"
    by (simp add: e(1) rest(1))
  moreover have "good_block b (?dc, e)"
    using e by (simp add: good_block_def block_data_bytes)
  moreover have "?dc @ concat (map fst rest) = drop off (buffer_bytes buffer)"
    if "list_all is_byte (buffer_bytes buffer)"
      "length (buffer_bytes buffer) = off + sum_list (map dataCount (b # bs))"
  proof -
    have "?dc = take (dataCount b) (drop off (buffer_bytes buffer))"
      using that by (intro block_data_slice) simp_all
    with rest(3) that show ?thesis
      by (simp add: add.commute [of off]) (metis append_take_drop_id drop_drop)
  qed
  ultimately show ?case using rest(2) by auto
qed simp

lemma good_blocks_lengths:
  assumes "list_all2 good_block bs blocks"
  shows "map length (map (\<lambda>(dc, ec). map Some dc) blocks) = map dataCount bs"
    "map length (map (\<lambda>(dc, ec). ec) blocks) = map ecCount bs"
  using assms by (induction rule: list_all2_induct) (auto simp: good_block_def)

lemma createBytes_correct:
  assumes bs: "\<forall>b\<in>set bs. ecCount b \<le> 30 \<and> dataCount b \<le> totalCount b"
  obtains stream blocks where "createBytes buffer bs = Some (Inr stream)"
    "length stream = sum_list (map totalCount bs)" "byte_poly stream"
    "read_blocks bs stream = map (\<lambda>(dc, ec). (map Some dc, ec)) blocks"
    "list_all2 good_block bs blocks"
    "list_all is_byte (buffer_bytes buffer) \<and> length (buffer_bytes buffer) = sum_list (map dataCount bs)
      \<longrightarrow> concat (map fst blocks) = buffer_bytes buffer"
proof -
  obtain blocks where blocks: "make_blocks buffer 0 bs = Some (Inr blocks)" "list_all2 good_block bs blocks"
      "list_all is_byte (buffer_bytes buffer) \<and> length (buffer_bytes buffer) = sum_list (map dataCount bs)
        \<longrightarrow> concat (map fst blocks) = buffer_bytes buffer"
    using make_blocks_correct [of bs buffer 0] bs by auto
  note len = good_blocks_lengths [OF blocks(2)]
  let ?d = "interleave (fold max (map dataCount bs) 0) (map (\<lambda>(dc, ec). map Some dc) blocks)"
  let ?e = "interleave (fold max (map ecCount bs) 0) (map (\<lambda>(dc, ec). ec) blocks)"
  have l: "length ?d = sum_list (map dataCount bs)" "length ?e = sum_list (map ecCount bs)"
    using length_interleave [OF len(1)] length_interleave [OF len(2)] by blast+
  have tot: "sum_list (map dataCount bs) + sum_list (map ecCount bs) = sum_list (map totalCount bs)"
    using bs by (induction bs) (auto simp: ecCount_def)
  have run: "createBytes buffer bs = Some (Inr (?d @ ?e))"
    using l tot by (simp add: createBytes_def blocks(1) Let_def fold_max_map)
  have all: "\<forall>c\<in>set blocks. list_all is_byte (fst c) \<and> byte_poly (snd c)"
    using blocks(2) by (induction rule: list_all2_induct) (auto simp: good_block_def)
  have "byte_coef c" if "c \<in> set ?d" for c
    using set_interleave [OF len(1)] that all by (fastforce simp: list_all_iff)
  moreover have "byte_coef c" if "c \<in> set ?e" for c
    using set_interleave [OF len(2)] that all by (fastforce simp: list_all_iff)
  ultimately have "byte_poly (?d @ ?e)"
    by (auto simp: list_all_iff)
  moreover have "read_blocks bs (?d @ ?e) = map (\<lambda>(dc, ec). (map Some dc, ec)) blocks"
    using l deinterleave_interleave [OF len(1)] deinterleave_interleave [OF len(2)]
    by (simp add: read_blocks_def Let_def zip_map_map) (simp add: zip_same_conv_map case_prod_beta)
  ultimately show ?thesis
    using that run blocks(2,3) l tot by simp
qed

text \<open>
  C24: the codeword sequence is what a scanner expects. For every version and level and every
  buffer that holds exactly the data bytes of the symbol, \<open>createBytes\<close> returns and throws nothing;
  the sequence has as many codewords as the symbol carries; read column by column it splits into
  the blocks, of which each is a Reed-Solomon codeword (zero at the first powers of alpha), and
  the data parts one after the other are the buffer.
\<close>

theorem createBytes_readable:
  assumes "1 \<le> v" "v \<le> 40" "getRSBlocks (int v) (Some (QRErrorCorrectionLevel lev)) = Inr bs"
    and "list_all is_byte (buffer_bytes buffer)"
    and "length (buffer_bytes buffer) = sum_list (map dataCount bs)"
  shows "\<exists>stream. createBytes buffer bs = Some (Inr stream) \<and> length stream = raw_modules v div 8 \<and>
    byte_poly stream \<and>
    list_all2 (\<lambda>b (dc, ec). length dc = dataCount b \<and> rs_codeword (ecCount b) (dc @ ec)) bs (read_blocks bs stream) \<and>
    concat (map fst (read_blocks bs stream)) = map Some (buffer_bytes buffer)"
proof -
  have bs: "\<forall>b\<in>set bs. ecCount b \<le> 30 \<and> dataCount b \<le> totalCount b"
      "sum_list (map totalCount bs) = raw_modules v div 8"
    using getRSBlocks_table [OF assms(1,2), of lev] assms(3) by (auto simp: ecCount_def)
  obtain stream blocks where s: "createBytes buffer bs = Some (Inr stream)"
      "length stream = sum_list (map totalCount bs)" "byte_poly stream"
      "read_blocks bs stream = map (\<lambda>(dc, ec). (map Some dc, ec)) blocks"
      "list_all2 good_block bs blocks"
      "concat (map fst blocks) = buffer_bytes buffer"
    using createBytes_correct [OF bs(1), of buffer] assms(4,5) by metis
  have "list_all2 (\<lambda>b (dc, ec). length dc = dataCount b \<and> rs_codeword (ecCount b) (dc @ ec)) bs
      (read_blocks bs stream)"
    using s(5) by (simp add: s(4) list_all2_map2 case_prod_beta good_block_def list_all2_conv_all_nth)
  moreover have "concat (map fst (read_blocks bs stream)) = map Some (buffer_bytes buffer)"
    by (simp add: s(4) comp_def case_prod_beta map_concat flip: s(6))
  ultimately show ?thesis using s bs(2) by auto
qed

theorem createBytes_readable_witness:
  "\<exists>stream. createBytes \<lparr>buffer_bytes = [64, 20, 16, 236, 17, 236, 17, 236, 17], buffer_length = 72\<rparr>
      [\<lparr>totalCount = 26, dataCount = 9\<rparr>] = Some (Inr stream) \<and> length stream = raw_modules 1 div 8 \<and>
    byte_poly stream \<and>
    list_all2 (\<lambda>b (dc, ec). length dc = dataCount b \<and> rs_codeword (ecCount b) (dc @ ec))
      [\<lparr>totalCount = 26, dataCount = 9\<rparr>] (read_blocks [\<lparr>totalCount = 26, dataCount = 9\<rparr>] stream) \<and>
    concat (map fst (read_blocks [\<lparr>totalCount = 26, dataCount = 9\<rparr>] stream))
      = map Some (buffer_bytes \<lparr>buffer_bytes = [64, 20, 16, 236, 17, 236, 17, 236, 17], buffer_length = 72\<rparr>)"
proof (rule createBytes_readable [where lev = EC_H])
  show "getRSBlocks (int 1) (Some (QRErrorCorrectionLevel EC_H)) = Inr [\<lparr>totalCount = 26, dataCount = 9\<rparr>]"
    by (simp add: getRSBlocks_def getRsBlockTable_def js_index_def RS_BLOCK_TABLE_def RS_ROWS_1_20_def nth_append)
qed (simp_all add: is_byte_def)

end
