(* ===== verification/QR_Data.thy ===== *)
theory QR_Data
  imports QR_Modes QR_Codewords
begin

text \<open>
  \<open>createData\<close> of \<open>examples/chat/vendor/qrcode.js\<close>: the segments written one after the other,
  the overflow check, terminator and padding, then \<open>createBytes\<close>. The reference decoder at the
  end reads the codewords back into segments.
\<close>

subsection \<open>The operations\<close>

definition write_segment :: "int \<Rightarrow> qr_data \<Rightarrow> bit_buffer \<Rightarrow> bit_buffer result" where
  "write_segment typeNumber data buffer =
     (let buffer1 = put (getMode data) 4 buffer in
      rbind (getLengthInBits (getMode data) typeNumber) (\<lambda>w.
        data_write put data (put (int (getLength data)) w buffer1)))"

definition write_all :: "int \<Rightarrow> qr_data list \<Rightarrow> bit_buffer result" where
  "write_all typeNumber dataList = rfold (write_segment typeNumber) dataList qrBitBuffer"

definition total_data_count :: "rs_block list \<Rightarrow> nat" where
  "total_data_count rsBlocks = sum_list (map dataCount rsBlocks)"

lemma buffer_length_putBit [simp]: "buffer_length (putBit b s) = Suc (buffer_length s)"
  by (simp add: putBit_def Let_def)

function pad_bits :: "bit_buffer \<Rightarrow> bit_buffer" where
  "pad_bits buffer = (if buffer_length buffer mod 8 \<noteq> 0 then pad_bits (putBit False buffer) else buffer)"
  by auto

termination
proof (relation "measure (\<lambda>b. (8 - buffer_length b mod 8) mod 8)")
  fix b :: bit_buffer
  have "buffer_length b mod 8 < 8" by simp
  moreover assume "buffer_length b mod 8 \<noteq> 0"
  ultimately show "(putBit False b, b) \<in> measure (\<lambda>b. (8 - buffer_length b mod 8) mod 8)"
    by (auto simp: mod_Suc)
qed simp

function pad_bytes :: "nat \<Rightarrow> bit_buffer \<Rightarrow> bit_buffer" where
  "pad_bytes totalDataCount buffer =
     (if buffer_length buffer \<ge> totalDataCount * 8 then buffer
      else let buffer1 = put 0xEC 8 buffer in
        if buffer_length buffer1 \<ge> totalDataCount * 8 then buffer1
        else pad_bytes totalDataCount (put 0x11 8 buffer1))"
  by auto

termination
  by (relation "measure (\<lambda>(n, b). n * 8 - buffer_length b)") simp_all

definition createData :: "int \<Rightarrow> int option \<Rightarrow> qr_data list \<Rightarrow> int option list run" where
  "createData typeNumber errorCorrectionLevel dataList =
     run_bind (Some (getRSBlocks typeNumber errorCorrectionLevel)) (\<lambda>rsBlocks.
     run_bind (Some (write_all typeNumber dataList)) (\<lambda>buffer.
       let totalDataCount = total_data_count rsBlocks in
       if buffer_length buffer > totalDataCount * 8
       then Some (Inl (CodeLengthOverflow (buffer_length buffer) (totalDataCount * 8)))
       else let buffer1 = (if buffer_length buffer + 4 \<le> totalDataCount * 8 then put 0 4 buffer else buffer)
            in createBytes (pad_bytes totalDataCount (pad_bits buffer1)) rsBlocks))"

declare pad_bits.simps [simp del] pad_bytes.simps [simp del]

subsection \<open>Padding\<close>

lemma round_up_8: "n mod 8 \<noteq> 0 \<Longrightarrow> (Suc n + 7) div 8 = (n + 7) div 8 \<and> n < (n + 7) div 8 * (8 :: nat)"
proof -
  assume "n mod 8 \<noteq> 0"
  moreover define q r where "q = n div 8" "r = n mod 8"
  ultimately have "n = 8 * q + r" "0 < r" "r < 8" by simp_all
  moreover from this have "(8 * q + r + 7) div 8 = Suc q" by (intro div_nat_eqI) simp_all
  ultimately show ?thesis by simp
qed

lemma pad_bits_correct:
  "buffer_inv s \<Longrightarrow> buffer_inv (pad_bits s) \<and> buffer_length (pad_bits s) = (buffer_length s + 7) div 8 * 8 \<and>
    buffer_bits (pad_bits s) = buffer_bits s @ replicate ((buffer_length s + 7) div 8 * 8 - buffer_length s) False"
proof (induction s rule: pad_bits.induct)
  case (1 s)
  show ?case
  proof (cases "buffer_length s mod 8 = 0")
    case True
    then obtain k where "buffer_length s = 8 * k" by (auto simp: mod_eq_0_iff_dvd)
    with True 1 show ?thesis by (simp add: pad_bits.simps [of s])
  next
    case False
    define k where "k = (buffer_length s + 7) div 8"
    have k: "(Suc (buffer_length s) + 7) div 8 = k" "buffer_length s < k * 8"
      using False round_up_8 [of "buffer_length s"] by (simp_all add: k_def)
    then have "replicate (k * 8 - buffer_length s) False = False # replicate (k * 8 - Suc (buffer_length s)) False"
      by (simp add: Suc_diff_Suc flip: replicate_Suc)
    with False 1 k(1) show ?thesis
      by (simp add: pad_bits.simps [of s] putBit_refines flip: k_def)
  qed
qed

lemma pad_bytes_correct:
  "buffer_inv s \<Longrightarrow> buffer_length s mod 8 = 0 \<Longrightarrow> buffer_length s \<le> n * 8 \<Longrightarrow>
   buffer_inv (pad_bytes n s) \<and> buffer_length (pad_bytes n s) = n * 8 \<and>
     (\<exists>bs. buffer_bits (pad_bytes n s) = buffer_bits s @ bs)"
proof (induction n s rule: pad_bytes.induct)
  case (1 n s)
  show ?case
  proof (cases "buffer_length s \<ge> n * 8")
    case True
    with 1 show ?thesis by (simp add: pad_bytes.simps [of n s])
  next
    case False
    with 1(3) have more: "buffer_length s + 8 \<le> n * 8" by presburger
    show ?thesis
    proof (cases "buffer_length s + 8 \<ge> n * 8")
      case True
      with False more 1 show ?thesis
        by (simp add: pad_bytes.simps [of n s] Let_def put_refines)
    next
      case b: False
      with 1(3) have "buffer_length s + 16 \<le> n * 8" by presburger
      with False b 1 show ?thesis
        by (auto simp: pad_bytes.simps [of n s] Let_def put_refines)
    qed
  qed
qed

subsection \<open>A reader of the bit stream\<close>

definition segment_template :: "int \<Rightarrow> qr_data option" where
  "segment_template mode =
     (if mode = 1 then Some (QrNumber []) else if mode = 2 then Some (QrAlphaNum [])
      else if mode = 4 then Some (Qr8BitByte []) else if mode = 8 then Some (QrKanji []) else None)"

lemma read_shorter:
  "length (snd (read_number n bs)) \<le> length bs" "length (snd (read_alphanum n bs)) \<le> length bs"
  "length (snd (read_bytes n bs)) \<le> length bs" "length (snd (read_kanji n bs)) \<le> length bs"
proof -
  show "length (snd (read_number n bs)) \<le> length bs"
    by (induction n bs rule: read_number.induct) (auto simp: Let_def split_beta intro: order_trans)
  show "length (snd (read_alphanum n bs)) \<le> length bs"
    by (induction n bs rule: read_alphanum.induct) (auto simp: Let_def split_beta intro: order_trans)
  show "length (snd (read_bytes n bs)) \<le> length bs"
    by (induction n bs rule: read_bytes.induct) (auto simp: Let_def split_beta intro: order_trans)
  show "length (snd (read_kanji n bs)) \<le> length bs"
    by (induction n bs rule: read_kanji.induct) (auto simp: Let_def split_beta intro: order_trans [OF _ diff_le_self])
qed

lemma read_data_shorter: "length (snd (read_data d n bs)) \<le> length bs"
  using read_shorter by (cases d) simp_all

text \<open>
  Segments up to the terminator: a zero mode, or fewer than four bits. \<open>None\<close> is a malformed
  stream.
\<close>

function read_segments :: "int \<Rightarrow> bool list \<Rightarrow> qr_data list option" where
  "read_segments v bs =
     (if length bs < 4 \<or> bits_num (take 4 bs) = 0 then Some []
      else case segment_template (bits_num (take 4 bs)) of None \<Rightarrow> None
      | Some t \<Rightarrow> (case getLengthInBits (getMode t) v of Inl _ \<Rightarrow> None
        | Inr w \<Rightarrow>
            let len = nat (bits_num (take w (drop 4 bs)));
                r = read_data t len (drop w (drop 4 bs))
            in map_option (Cons (fst r)) (read_segments v (snd r))))"
  by auto

termination
proof (relation "measure (\<lambda>(v, bs). length bs)")
  fix v :: int and bs t w len r
  assume "\<not> (length bs < 4 \<or> bits_num (take 4 bs) = 0)" "r = read_data t len (drop w (drop 4 bs))"
  moreover from this read_data_shorter [of t len "drop w (drop 4 bs)"]
  have "length (snd r) \<le> length bs - (4 + w)" by simp
  ultimately show "((v, snd r), v, bs) \<in> measure (\<lambda>(v, bs). length bs)"
    by auto
qed simp

declare read_segments.simps [simp del]

definition decode_codewords :: "int \<Rightarrow> rs_block list \<Rightarrow> int option list \<Rightarrow> qr_data list option" where
  "decode_codewords v rsBlocks stream =
     (let blocks = read_blocks rsBlocks stream
      in if list_all2 (\<lambda>b (dc, ec). rs_codeword (ecCount b) (dc @ ec)) rsBlocks blocks
         then read_segments v (bytes_bits (map num_or_0 (concat (map fst blocks)))) else None)"

subsection \<open>Length fields and capacities\<close>

definition length_bits :: "int \<Rightarrow> qr_data \<Rightarrow> nat" where
  "length_bits v d = (case getLengthInBits (getMode d) v of Inl _ \<Rightarrow> 0 | Inr w \<Rightarrow> w)"

definition segment_bits :: "int \<Rightarrow> qr_data \<Rightarrow> nat" where
  "segment_bits v d = 4 + length_bits v d + payload_bits d"

lemma getLengthInBits_valid:
  "1 \<le> v \<Longrightarrow> v \<le> 40 \<Longrightarrow> getLengthInBits (getMode d) v = Inr (length_bits v d) \<and> length_bits v d \<le> 16"
  by (cases d) (auto simp: getLengthInBits_def length_bits_def)

lemma read_data_template:
  "segment_template (getMode d) = Some t \<Longrightarrow> read_data t n bs = read_data d n bs \<and> getMode t = getMode d"
  by (cases d) (auto simp: segment_template_def)

lemma segment_template_getMode: "\<exists>t. segment_template (getMode d) = Some t"
  by (cases d) (simp_all add: segment_template_def)

lemma getMode_bits: "bits_num (num_bits (getMode d) 4) = getMode d" "getMode d \<noteq> 0"
  by (cases d; simp add: bits_num_num_bits take_bit_eq_mod)+

definition capacity_bits :: "int \<Rightarrow> nat" where
  "capacity_bits v = (if v < 10 then 1856 else if v < 27 then 10960 else 23648)"

text \<open>A segment that fits the symbol has a character count that fits its length field.\<close>

lemma length_fits:
  assumes "1 \<le> v" "v \<le> 40" "payload_bits d \<le> capacity_bits v"
  shows "int (getLength d) < 2 ^ length_bits v d"
proof (cases d)
  case (QrNumber data)
  have "length data < 3 * (length data div 3) + 3" by simp
  moreover have "10 * (length data div 3) \<le> payload_bits d" by (simp add: QrNumber)
  ultimately have "length data * 10 < 3 * payload_bits d + 30" by linarith
  with QrNumber assms show ?thesis
    by (auto simp: length_bits_def getLengthInBits_def capacity_bits_def)
next
  case (QrAlphaNum data)
  have "length data < 2 * (length data div 2) + 2" by simp
  with QrAlphaNum assms show ?thesis
    by (auto simp: length_bits_def getLengthInBits_def capacity_bits_def)
next
  case (Qr8BitByte bytes)
  with assms show ?thesis
    by (auto simp: length_bits_def getLengthInBits_def capacity_bits_def)
next
  case (QrKanji bytes)
  with assms show ?thesis
    by (auto simp: length_bits_def getLengthInBits_def capacity_bits_def)
qed

lemma row_data_bounds:
  "list_all (\<lambda>row. row_data row \<le> 232) (take 36 RS_ROWS_1_20)"
  "list_all (\<lambda>row. row_data row \<le> 1370) RS_ROWS_1_20"
  "list_all (\<lambda>row. row_data row \<le> 1370) (take 24 RS_ROWS_21_40)"
  "list_all (\<lambda>row. row_data row \<le> 2956) RS_ROWS_21_40"
  by (simp_all add: RS_ROWS_1_20_def RS_ROWS_21_40_def)

lemma capacity:
  assumes "1 \<le> v" "v \<le> 40" "getRSBlocks (int v) (Some (QRErrorCorrectionLevel lev)) = Inr bs"
  shows "8 * total_data_count bs \<le> capacity_bits (int v)"
proof -
  let ?i = "4 * (v - 1) + level_index lev"
  have lev: "level_index lev < 4" by (cases lev) simp_all
  have len: "length RS_ROWS_1_20 = 80" "length RS_ROWS_21_40 = 80"
    by (simp_all add: RS_ROWS_1_20_def RS_ROWS_21_40_def)
  obtain row where row: "row = RS_BLOCK_TABLE ! ?i" "bs = rs_row_blocks row"
    using getRsBlockTable_index [OF assms(1,2), of lev] assms(3) by (simp add: getRSBlocks_def)
  have b: "v < 10 \<Longrightarrow> row_data row \<le> 232" "v < 21 \<Longrightarrow> row_data row \<le> 1370"
      "21 \<le> v \<Longrightarrow> v < 27 \<Longrightarrow> row_data row \<le> 1370" "21 \<le> v \<Longrightarrow> row_data row \<le> 2956"
    using row_data_bounds lev assms(1,2)
    unfolding row RS_BLOCK_TABLE_def nth_append len list_all_length
    by (auto simp: len)
  then have "v < 10 \<longrightarrow> row_data row \<le> 232" "v < 27 \<longrightarrow> row_data row \<le> 1370" "row_data row \<le> 2956"
    by fastforce+
  then show ?thesis
    by (auto simp: total_data_count_def row(2) sum_rs_row_blocks capacity_bits_def)
qed

subsection \<open>Segments are written and read back\<close>

definition segment_encoding :: "int \<Rightarrow> qr_data \<Rightarrow> bool list \<Rightarrow> bool" where
  "segment_encoding v d bs \<longleftrightarrow> (\<exists>p. bs = num_bits (getMode d) 4 @ num_bits (int (getLength d)) (length_bits v d) @ p \<and>
     length p = payload_bits d \<and> (\<forall>rest. read_data d (getLength d) (p @ rest) = (d, rest)))"

lemma segment_encoding_length: "segment_encoding v d bs \<Longrightarrow> length bs = segment_bits v d"
  by (auto simp: segment_encoding_def segment_bits_def)

lemma write_segment_correct:
  assumes "1 \<le> v" "v \<le> 40" "valid_data d" "buffer_inv s"
  shows "\<exists>s' bs. write_segment v d s = Inr s' \<and> buffer_inv s' \<and> buffer_bits s' = buffer_bits s @ bs \<and>
    segment_encoding v d bs"
proof -
  let ?w = "length_bits v d"
  let ?s1 = "put (getMode d) 4 s"
  let ?s2 = "put (int (getLength d)) ?w ?s1"
  note w = getLengthInBits_valid [OF assms(1,2), of d]
  have s1: "buffer_inv ?s1" "buffer_bits ?s1 = buffer_bits s @ num_bits (getMode d) 4"
    using put_refines [OF assms(4), of 4] by simp_all
  have s2: "buffer_inv ?s2" "buffer_bits ?s2 = buffer_bits ?s1 @ num_bits (int (getLength d)) ?w"
    using put_refines [OF s1(1), of ?w] w by simp_all
  obtain s' p where "data_write put d ?s2 = Inr s'" "buffer_inv s'" "buffer_bits s' = buffer_bits ?s2 @ p"
      "length p = payload_bits d" "\<forall>rest. read_data d (getLength d) (p @ rest) = (d, rest)"
    using bb.write_read [OF assms(3) s2(1)] by blast
  then show ?thesis
    using w s1(2) s2(2)
    by (intro exI [of _ s'] exI [of _ "num_bits (getMode d) 4 @ num_bits (int (getLength d)) ?w @ p"])
       (simp add: write_segment_def segment_encoding_def Let_def)
qed

lemma write_segments_correct:
  assumes "1 \<le> v" "v \<le> 40"
  shows "list_all valid_data ds \<Longrightarrow> buffer_inv s \<Longrightarrow>
    \<exists>s' bss. rfold (write_segment v) ds s = Inr s' \<and> buffer_inv s' \<and> buffer_bits s' = buffer_bits s @ concat bss \<and>
      list_all2 (segment_encoding v) ds bss"
proof (induction ds arbitrary: s)
  case (Cons d ds)
  from Cons.prems obtain s1 bs where s1: "write_segment v d s = Inr s1" "buffer_inv s1"
      "buffer_bits s1 = buffer_bits s @ bs" "segment_encoding v d bs"
    using write_segment_correct [OF assms] by fastforce
  with Cons obtain s' bss where "rfold (write_segment v) ds s1 = Inr s'" "buffer_inv s'"
      "buffer_bits s' = buffer_bits s1 @ concat bss" "list_all2 (segment_encoding v) ds bss"
    by fastforce
  with s1 show ?case by (intro exI [of _ s'] exI [of _ "bs # bss"]) simp
qed simp

lemma segments_length:
  "list_all2 (segment_encoding v) ds bss \<Longrightarrow> length (concat bss) = sum_list (map (segment_bits v) ds)"
  by (induction rule: list_all2_induct) (simp_all add: segment_encoding_length)

lemma write_all_correct:
  assumes "1 \<le> v" "v \<le> 40" "list_all valid_data ds"
  obtains s bss where "write_all v ds = Inr s" "buffer_inv s" "buffer_bits s = concat bss"
    "list_all2 (segment_encoding v) ds bss" "buffer_length s = sum_list (map (segment_bits v) ds)"
proof -
  obtain s bss where s: "rfold (write_segment v) ds qrBitBuffer = Inr s" "buffer_inv s"
      "buffer_bits s = buffer_bits qrBitBuffer @ concat bss" "list_all2 (segment_encoding v) ds bss"
    using write_segments_correct [OF assms(1,2,3), of qrBitBuffer] by auto
  then have "buffer_length s = length (concat bss)"
    by (metis length_buffer_bits append_Nil buffer_bits_empty)
  with s show ?thesis
    using that segments_length by (simp add: write_all_def)
qed

lemma read_segment:
  assumes "1 \<le> v" "v \<le> 40" "segment_encoding v d bs" "payload_bits d \<le> capacity_bits v"
  shows "read_segments v (bs @ rest) = map_option (Cons d) (read_segments v rest)"
proof -
  let ?w = "length_bits v d"
  obtain p where p: "bs = num_bits (getMode d) 4 @ num_bits (int (getLength d)) ?w @ p"
      "\<forall>rest. read_data d (getLength d) (p @ rest) = (d, rest)"
    using assms(3) by (auto simp: segment_encoding_def)
  obtain t where t: "segment_template (getMode d) = Some t"
    using segment_template_getMode by blast
  have "bits_num (num_bits (int (getLength d)) ?w) = int (getLength d)"
    using length_fits [OF assms(1,2,4)] by (intro bits_num_read) simp_all
  with t read_data_template [OF t] p(2) getMode_bits [of d] getLengthInBits_valid [OF assms(1,2), of d]
  show ?thesis
    by (subst read_segments.simps) (simp add: p(1) Let_def)
qed

lemma read_all:
  assumes "1 \<le> v" "v \<le> 40"
  shows "list_all2 (segment_encoding v) ds bss \<Longrightarrow> \<forall>d\<in>set ds. payload_bits d \<le> capacity_bits v \<Longrightarrow>
    read_segments v rest = Some [] \<Longrightarrow> read_segments v (concat bss @ rest) = Some ds"
proof (induction rule: list_all2_induct)
  case (Cons d ds bs bss)
  with read_segment [OF assms Cons(1), of "concat bss @ rest"] show ?case by simp
qed simp

lemma read_end: "length bs < 4 \<or> take 4 bs = replicate 4 False \<Longrightarrow> read_segments v bs = Some []"
  by (subst read_segments.simps) (auto simp: bits_num_def numeral_eq_Suc)

subsection \<open>The whole of \<open>createData\<close>\<close>

lemma num_bits_zero: "num_bits 0 n = replicate n False"
  by (rule nth_equalityI) (simp_all add: num_bits_def)

lemma pad_all_correct:
  assumes "buffer_inv s" "buffer_length s \<le> n * 8"
  obtains t where "buffer_inv (pad_bytes n (pad_bits s))" "buffer_length (pad_bytes n (pad_bits s)) = n * 8"
    "buffer_bits (pad_bytes n (pad_bits s)) = buffer_bits s @ t"
proof -
  note b = pad_bits_correct [OF assms(1)]
  have "buffer_length (pad_bits s) \<le> n * 8" using b assms(2) by simp
  moreover have "buffer_length (pad_bits s) mod 8 = 0" using b by simp
  ultimately show ?thesis using that pad_bytes_correct [of "pad_bits s" n] b by auto
qed

lemma terminated:
  assumes "buffer_inv s" "buffer_length s \<le> n * 8"
  defines "s1 \<equiv> (if buffer_length s + 4 \<le> n * 8 then put 0 4 s else s)"
  obtains t where "buffer_inv (pad_bytes n (pad_bits s1))" "buffer_length (pad_bytes n (pad_bits s1)) = n * 8"
    "buffer_bits (pad_bytes n (pad_bits s1)) = buffer_bits s @ t" "length t < 4 \<or> take 4 t = replicate 4 False"
proof -
  have s1: "buffer_inv s1" "buffer_length s1 \<le> n * 8"
    using assms put_refines [OF assms(1), of 4 0] by auto
  obtain u where u: "buffer_inv (pad_bytes n (pad_bits s1))" "buffer_length (pad_bytes n (pad_bits s1)) = n * 8"
      "buffer_bits (pad_bytes n (pad_bits s1)) = buffer_bits s1 @ u"
    using pad_all_correct [OF s1] .
  show ?thesis
  proof (cases "buffer_length s + 4 \<le> n * 8")
    case True
    then have "buffer_bits s1 = buffer_bits s @ replicate 4 False"
      using put_refines [OF assms(1), of 4 0] by (simp add: s1_def num_bits_zero)
    with u show ?thesis using that [of "replicate 4 False @ u"] by simp
  next
    case False
    then have "buffer_bits s1 = buffer_bits s" by (simp add: s1_def)
    moreover from this u have "buffer_length s + length u = n * 8"
      by (metis length_append length_buffer_bits)
    ultimately show ?thesis using that [of u] u False by simp
  qed
qed

lemma createData_fits:
  assumes v: "1 \<le> v" "v \<le> 40"
    and bs: "getRSBlocks (int v) (Some (QRErrorCorrectionLevel lev)) = Inr bs"
    and ds: "list_all valid_data ds"
    and fits: "sum_list (map (segment_bits (int v)) ds) \<le> 8 * total_data_count bs"
  shows "\<exists>stream. createData (int v) (Some (QRErrorCorrectionLevel lev)) ds = Some (Inr stream) \<and>
    length stream = raw_modules v div 8 \<and> byte_poly stream \<and> decode_codewords (int v) bs stream = Some ds"
proof -
  have iv: "1 \<le> int v" "int v \<le> 40" using v by simp_all
  obtain s bss where s: "write_all (int v) ds = Inr s" "buffer_inv s" "buffer_bits s = concat bss"
      "list_all2 (segment_encoding (int v)) ds bss" "buffer_length s = sum_list (map (segment_bits (int v)) ds)"
    using write_all_correct [OF iv ds] .
  let ?n = "total_data_count bs"
  let ?s = "pad_bytes ?n (pad_bits (if buffer_length s + 4 \<le> ?n * 8 then put 0 4 s else s))"
  have le: "buffer_length s \<le> ?n * 8" using fits s(5) by simp
  obtain t where t: "buffer_inv ?s" "buffer_length ?s = ?n * 8" "buffer_bits ?s = concat bss @ t"
      "length t < 4 \<or> take 4 t = replicate 4 False"
    using terminated [OF s(2) le] s(3) by metis
  have ec: "\<forall>b\<in>set bs. ecCount b \<le> 30 \<and> dataCount b \<le> totalCount b"
      "sum_list (map totalCount bs) = raw_modules v div 8"
    using getRSBlocks_table [OF v, of lev] bs by (auto simp: ecCount_def)
  have full: "list_all is_byte (buffer_bytes ?s) \<and> length (buffer_bytes ?s) = sum_list (map dataCount bs)"
    using t(1,2) by (simp add: buffer_inv_def total_data_count_def)
  obtain stream blocks where b: "createBytes ?s bs = Some (Inr stream)"
      "length stream = sum_list (map totalCount bs)" "byte_poly stream"
      "read_blocks bs stream = map (\<lambda>(dc, ec). (map Some dc, ec)) blocks"
      "list_all2 good_block bs blocks" "concat (map fst blocks) = buffer_bytes ?s"
    using createBytes_correct [OF ec(1), of ?s] full by metis
  have run: "createData (int v) (Some (QRErrorCorrectionLevel lev)) ds = Some (Inr stream)"
    using le b(1) by (simp add: createData_def bs s(1) Let_def)
  have "list_all2 (\<lambda>b (dc, ec). rs_codeword (ecCount b) (dc @ ec)) bs (read_blocks bs stream)"
    using b(5) by (simp add: b(4) list_all2_map2 case_prod_beta good_block_def list_all2_conv_all_nth)
  moreover have "map num_or_0 (concat (map fst (read_blocks bs stream))) = buffer_bytes ?s"
    by (simp add: b(4) comp_def case_prod_beta map_concat flip: b(6))
  moreover have "bytes_bits (buffer_bytes ?s) = concat bss @ t"
    using bytes_bits_buffer [OF t(1)] t(2,3) by simp
  moreover have "\<forall>d\<in>set ds. payload_bits d \<le> capacity_bits (int v)"
  proof
    fix d assume "d \<in> set ds"
    then have "segment_bits (int v) d \<le> sum_list (map (segment_bits (int v)) ds)"
      by (intro member_le_sum_list) simp_all
    with fits capacity [OF v bs] show "payload_bits d \<le> capacity_bits (int v)"
      by (simp add: segment_bits_def)
  qed
  ultimately have "decode_codewords (int v) bs stream = Some ds"
    using read_all [OF iv s(4) _ read_end [OF t(4)]] by (simp add: decode_codewords_def Let_def)
  with run b(2,3) ec(2) show ?thesis by auto
qed

text \<open>
  C23: what is encoded can be read back. Segments whose payloads their modes allow and that fit the
  symbol are encoded without an error by \<open>createData\<close>, into exactly as many codewords as the
  symbol carries. The reference reader, which cuts the codewords into blocks, checks every
  block's Reed-Solomon syndromes, joins the data and parses the segments up to the terminator,
  returns the same segments.
\<close>

theorem createData_roundtrip:
  assumes "1 \<le> v" "v \<le> 40"
    and "getRSBlocks (int v) (Some (QRErrorCorrectionLevel lev)) = Inr bs"
    and "list_all valid_data ds"
    and "sum_list (map (segment_bits (int v)) ds) \<le> 8 * total_data_count bs"
  shows "\<exists>stream. createData (int v) (Some (QRErrorCorrectionLevel lev)) ds = Some (Inr stream) \<and>
    length stream = raw_modules v div 8 \<and> byte_poly stream \<and> decode_codewords (int v) bs stream = Some ds"
  using assms by (rule createData_fits)

theorem createData_roundtrip_witness:
  "\<exists>stream. createData (int 1) (Some (QRErrorCorrectionLevel EC_H)) [Qr8BitByte [0x68, 0x69], QrNumber [0x37]]
      = Some (Inr stream) \<and>
    length stream = raw_modules 1 div 8 \<and> byte_poly stream \<and>
    decode_codewords (int 1) [\<lparr>totalCount = 26, dataCount = 9\<rparr>] stream
      = Some [Qr8BitByte [0x68, 0x69], QrNumber [0x37]]"
proof (rule createData_roundtrip)
  show "getRSBlocks (int 1) (Some (QRErrorCorrectionLevel EC_H)) = Inr [\<lparr>totalCount = 26, dataCount = 9\<rparr>]"
    by (simp add: getRSBlocks_def getRsBlockTable_def js_index_def RS_BLOCK_TABLE_def RS_ROWS_1_20_def nth_append)
qed (simp_all add: is_byte_def is_digit_def segment_bits_def length_bits_def getLengthInBits_def total_data_count_def)

text \<open>
  C31: the code rejects data exactly when it does not fit. For valid segments \<open>createData\<close> throws
  \<open>code length overflow\<close>, with the two bit counts, if and only if the bits of the segments exceed
  the data capacity of the symbol.
\<close>

theorem createData_overflow:
  assumes "1 \<le> v" "v \<le> 40"
    and "getRSBlocks (int v) (Some (QRErrorCorrectionLevel lev)) = Inr bs"
    and "list_all valid_data ds"
  shows "createData (int v) (Some (QRErrorCorrectionLevel lev)) ds
      = Some (Inl (CodeLengthOverflow (sum_list (map (segment_bits (int v)) ds)) (8 * total_data_count bs)))
    \<longleftrightarrow> 8 * total_data_count bs < sum_list (map (segment_bits (int v)) ds)"
proof -
  have iv: "1 \<le> int v" "int v \<le> 40" using assms(1,2) by simp_all
  obtain s bss where s: "write_all (int v) ds = Inr s" 
      "buffer_length s = sum_list (map (segment_bits (int v)) ds)"
    using write_all_correct [OF iv assms(4)] .
  show ?thesis
  proof (cases "8 * total_data_count bs < buffer_length s")
    case True
    with s assms(3) show ?thesis by (simp add: createData_def Let_def)
  next
    case False
    with createData_fits [OF assms] s(2) show ?thesis by auto
  qed
qed

theorem createData_overflow_witness:
  "createData (int 1) (Some (QRErrorCorrectionLevel EC_H)) [Qr8BitByte (replicate 8 0x61)]
      = Some (Inl (CodeLengthOverflow (sum_list (map (segment_bits (int 1)) [Qr8BitByte (replicate 8 0x61)]))
          (8 * total_data_count [\<lparr>totalCount = 26, dataCount = 9\<rparr>])))
    \<longleftrightarrow> 8 * total_data_count [\<lparr>totalCount = 26, dataCount = 9\<rparr>]
      < sum_list (map (segment_bits (int 1)) [Qr8BitByte (replicate 8 0x61)])"
proof (rule createData_overflow)
  show "getRSBlocks (int 1) (Some (QRErrorCorrectionLevel EC_H)) = Inr [\<lparr>totalCount = 26, dataCount = 9\<rparr>]"
    by (simp add: getRSBlocks_def getRsBlockTable_def js_index_def RS_BLOCK_TABLE_def RS_ROWS_1_20_def nth_append)
qed (simp_all add: is_byte_def list_all_iff)

end
