(* ===== verification/JS_Text.thy ===== *)
theory JS_Text
  imports Prelude
begin

text \<open>
  The text functions of the JavaScript standard library that \<open>chat.js\<close>, \<open>serve.mjs\<close> and the
  wasm glue use: UTF-16 and UTF-8, \<open>encodeURIComponent\<close> and \<open>decodeURIComponent\<close>,
  \<open>URLSearchParams\<close>, splitting, joining and trimming. Strings are lists of UTF-16 code units; a
  lone surrogate is a code point of its own.
\<close>

named_theorems utf_facts \<open>facts about code points and their encodings\<close>

subsection \<open>UTF-16\<close>

definition high_surrogate :: "nat \<Rightarrow> bool" where
  "high_surrogate c \<longleftrightarrow> 0xD800 \<le> c \<and> c \<le> 0xDBFF"

definition low_surrogate :: "nat \<Rightarrow> bool" where
  "low_surrogate c \<longleftrightarrow> 0xDC00 \<le> c \<and> c \<le> 0xDFFF"

fun code_points :: "jsstring \<Rightarrow> nat list" where
  "code_points (a # b # s) =
     (if high_surrogate (unat a) \<and> low_surrogate (unat b)
      then (0x10000 + (unat a - 0xD800) * 0x400 + (unat b - 0xDC00)) # code_points s
      else unat a # code_points (b # s))"
| "code_points [a] = [unat a]"
| "code_points [] = []"

definition units :: "nat \<Rightarrow> jsstring" where
  "units c = (if c < 0x10000 then [of_nat c]
     else [of_nat (0xD800 + (c - 0x10000) div 0x400), of_nat (0xDC00 + (c - 0x10000) mod 0x400)])"

definition scalar :: "nat \<Rightarrow> bool" where
  "scalar c \<longleftrightarrow> c < 0x110000 \<and> \<not> high_surrogate c \<and> \<not> low_surrogate c"

text \<open>A string without lone surrogates.\<close>

definition well_formed :: "jsstring \<Rightarrow> bool" where
  "well_formed s \<longleftrightarrow> list_all scalar (code_points s)"

lemma unat_16: "unat (a :: 16 word) < 65536"
  by (rule order_less_le_trans [OF unsigned_less]) simp

lemma units_pair:
  assumes "high_surrogate (unat a)" "low_surrogate (unat b)"
  shows "units (0x10000 + (unat a - 0xD800) * 0x400 + (unat b - 0xDC00)) = [a, b]"
proof -
  let ?h = "unat a - 0xD800" and ?l = "unat b - 0xDC00"
  have l: "?l < 0x400" using assms(2) unfolding low_surrogate_def by linarith
  then have "(?h * 0x400 + ?l) div 0x400 = ?h" "(?h * 0x400 + ?l) mod 0x400 = ?l" by simp_all
  moreover have "0xD800 + ?h = unat a" "0xDC00 + ?l = unat b"
    using assms by (simp_all add: high_surrogate_def low_surrogate_def)
  ultimately show ?thesis
    by (simp only: units_def add.assoc add_diff_cancel_left') simp
qed

lemma units_single [simp]: "units (unat (a :: 16 word)) = [a]"
  using unat_16 [of a] by (simp add: units_def)

lemma units_code_points: "concat (map units (code_points s)) = s"
  by (induction s rule: code_points.induct) (simp_all add: units_pair)

lemma code_points_bound: "c \<in> set (code_points s) \<Longrightarrow> c < 0x110000"
proof (induction s rule: code_points.induct)
  case (1 a b s)
  show ?case
  proof (cases "high_surrogate (unat a) \<and> low_surrogate (unat b)")
    case True
    then have "(unat a - 0xD800) * 0x400 \<le> 0x3FF * 0x400" "unat b - 0xDC00 < 0x400"
      unfolding high_surrogate_def low_surrogate_def by linarith+
    with True 1 show ?thesis by auto
  next
    case False
    with 1 unat_16 [of a] show ?thesis by auto
  qed
next
  case (2 a)
  with unat_16 [of a] show ?case by simp
qed simp

subsection \<open>UTF-8\<close>

definition utf8 :: "nat \<Rightarrow> nat list" where
  "utf8 c =
     (if c < 0x80 then [c]
      else if c < 0x800 then [0xC0 + c div 0x40, 0x80 + c mod 0x40]
      else if c < 0x10000 then [0xE0 + c div 0x1000, 0x80 + c div 0x40 mod 0x40, 0x80 + c mod 0x40]
      else [0xF0 + c div 0x40000, 0x80 + c div 0x1000 mod 0x40, 0x80 + c div 0x40 mod 0x40, 0x80 + c mod 0x40])"

text \<open>
  The decoder of the Encoding standard: the continuation bytes still needed, the bits read so far
  and the range of the next continuation byte. \<open>None\<close> is a malformed sequence, which
  \<open>URLSearchParams\<close> turns into U+FFFD and a fatal \<open>TextDecoder\<close> into an exception.
\<close>

function utf8_dec :: "nat \<Rightarrow> nat \<Rightarrow> nat \<Rightarrow> nat \<Rightarrow> nat list \<Rightarrow> nat option list" where
  "utf8_dec 0 cp lo hi [] = []"
| "utf8_dec (Suc n) cp lo hi [] = [None]"
| "utf8_dec 0 cp lo hi (b # bs) =
     (if b < 0x80 then Some b # utf8_dec 0 0 0x80 0xBF bs
      else if 0xC2 \<le> b \<and> b \<le> 0xDF then utf8_dec 1 (b - 0xC0) 0x80 0xBF bs
      else if 0xE0 \<le> b \<and> b \<le> 0xEF then
        utf8_dec 2 (b - 0xE0) (if b = 0xE0 then 0xA0 else 0x80) (if b = 0xED then 0x9F else 0xBF) bs
      else if 0xF0 \<le> b \<and> b \<le> 0xF4 then
        utf8_dec 3 (b - 0xF0) (if b = 0xF0 then 0x90 else 0x80) (if b = 0xF4 then 0x8F else 0xBF) bs
      else None # utf8_dec 0 0 0x80 0xBF bs)"
| "utf8_dec (Suc n) cp lo hi (b # bs) =
     (if lo \<le> b \<and> b \<le> hi then
        (if n = 0 then Some (cp * 0x40 + (b - 0x80)) # utf8_dec 0 0 0x80 0xBF bs
         else utf8_dec n (cp * 0x40 + (b - 0x80)) 0x80 0xBF bs)
      else None # utf8_dec 0 0 0x80 0xBF (b # bs))"
  by pat_completeness auto

termination
  by (relation "measures [\<lambda>(n, cp, lo, hi, bs). length bs, \<lambda>(n, cp, lo, hi, bs). n]") simp_all

definition utf8_decode :: "nat list \<Rightarrow> nat option list" where
  "utf8_decode bs = utf8_dec 0 0 0x80 0xBF bs"

lemma utf8_dec_utf8:
  assumes "scalar c"
  shows "utf8_dec 0 cp lo hi (utf8 c @ bs) = Some c # utf8_dec 0 0 0x80 0xBF bs"
proof -
  consider "c < 0x80" | "0x80 \<le> c" "c < 0x800" | "0x800 \<le> c" "c < 0x10000" | "0x10000 \<le> c" "c < 0x110000"
    using assms by (force simp: scalar_def)
  then show ?thesis
  proof cases
    case 2
    define q r where qr: "q = c div 0x40" "r = c mod 0x40"
    have c: "c = q * 0x40 + r" "r < 0x40" by (simp_all add: qr)
    with 2 have "2 \<le> q" "q < 32" by linarith+
    moreover have "utf8 c = [0xC0 + q, 0x80 + r]" using 2 by (simp add: utf8_def qr)
    ultimately show ?thesis using c by simp
  next
    case 3
    define a b r where abr: "a = c div 0x1000" "b = c div 0x40 mod 0x40" "r = c mod 0x40"
    have "c div 0x1000 = c div 0x40 div 0x40" by (simp add: div_mult2_eq [symmetric])
    then have c: "c = (a * 0x40 + b) * 0x40 + r" "b < 0x40" "r < 0x40" by (simp_all add: abr)
    then have flat: "c = a * 0x1000 + b * 0x40 + r" by simp
    with 3 have a: "a < 16" by linarith
    have "a = 0 \<Longrightarrow> 0x20 \<le> b" using 3 c(3) flat by linarith
    moreover have "a = 13 \<Longrightarrow> b < 0x20" using c(2,3) flat assms unfolding scalar_def high_surrogate_def low_surrogate_def by linarith
    moreover have "utf8 c = [0xE0 + a, 0x80 + b, 0x80 + r]" using 3 by (simp add: utf8_def abr)
    ultimately show ?thesis using a c by (auto simp: numeral_2_eq_2)
  next
    case 4
    define a b d r where abr: "a = c div 0x40000" "b = c div 0x1000 mod 0x40" "d = c div 0x40 mod 0x40" "r = c mod 0x40"
    have "c div 0x1000 = c div 0x40 div 0x40" "c div 0x40000 = c div 0x40 div 0x40 div 0x40"
      by (simp_all add: div_mult2_eq [symmetric])
    then have c: "c = ((a * 0x40 + b) * 0x40 + d) * 0x40 + r" "b < 0x40" "d < 0x40" "r < 0x40"
      by (simp_all add: abr)
    then have flat: "c = a * 0x40000 + b * 0x1000 + d * 0x40 + r" by simp
    with 4 have a: "a < 5" by linarith
    have "a = 0 \<Longrightarrow> 0x10 \<le> b" "a = 4 \<Longrightarrow> b < 0x10" using 4 c(2-4) flat by linarith+
    moreover have "utf8 c = [0xF0 + a, 0x80 + b, 0x80 + d, 0x80 + r]" using 4 by (simp add: utf8_def abr)
    ultimately show ?thesis using a c by (auto simp: numeral_3_eq_3)
  qed (simp add: utf8_def)
qed

lemma utf8_decode_encode: "list_all scalar cs \<Longrightarrow> utf8_decode (concat (map utf8 cs)) = map Some cs"
proof -
  have "list_all scalar cs \<Longrightarrow> utf8_dec 0 cp lo hi (concat (map utf8 cs)) = map Some cs" for cp lo hi
    by (induction cs arbitrary: cp lo hi) (simp_all add: utf8_dec_utf8)
  then show "list_all scalar cs \<Longrightarrow> ?thesis" by (simp add: utf8_decode_def)
qed

lemma utf8_bytes: "c < 0x110000 \<Longrightarrow> b \<in> set (utf8 c) \<Longrightarrow> b < 256"
  by (auto simp: utf8_def split: if_splits)

lemma utf8_nonempty [simp]: "utf8 c \<noteq> []" "[] \<noteq> utf8 c"
  by (auto simp: utf8_def)

end
