(* ===== verification/JS_URI.thy ===== *)
theory JS_URI
  imports JS_Text
begin

text \<open>
  Splitting, joining and trimming, \<open>TextEncoder\<close>, percent-encoding and \<open>URLSearchParams\<close>, each
  with the round trip the application relies on.
\<close>

subsection \<open>Split, join, trim\<close>

fun split_on :: "'a \<Rightarrow> 'a list \<Rightarrow> 'a list list" where
  "split_on c [] = [[]]"
| "split_on c (x # xs) =
     (if x = c then [] # split_on c xs
      else (case split_on c xs of [] \<Rightarrow> [[x]] | y # ys \<Rightarrow> (x # y) # ys))"

fun join :: "'a list \<Rightarrow> 'a list list \<Rightarrow> 'a list" where
  "join sep [] = []"
| "join sep [x] = x"
| "join sep (x # y # ys) = x @ sep @ join sep (y # ys)"

lemma split_on_nonempty [simp]: "split_on c xs \<noteq> []"
  by (cases xs) (auto split: list.splits)

lemma split_on_free: "c \<notin> set xs \<Longrightarrow> split_on c xs = [xs]"
  by (induction xs) auto

lemma split_on_append: "c \<notin> set xs \<Longrightarrow> split_on c (xs @ c # ys) = xs # split_on c ys"
  by (induction xs) auto

lemma split_on_join:
  "xs \<noteq> [] \<Longrightarrow> \<forall>x\<in>set xs. c \<notin> set x \<Longrightarrow> split_on c (join [c] xs) = xs"
  by (induction "[c]" xs rule: join.induct) (simp_all add: split_on_free split_on_append)

lemma set_join: "set (join sep xs) \<subseteq> set sep \<union> \<Union> (set ` set xs)"
  by (induction sep xs rule: join.induct) auto

text \<open>White space and line terminators of ECMAScript, which \<open>trim\<close> and \<open>\s\<close> share.\<close>

definition js_space :: "16 word \<Rightarrow> bool" where
  "js_space c \<longleftrightarrow> unat c \<in> {9, 10, 11, 12, 13, 0x20, 0xA0, 0x1680, 0x2028, 0x2029, 0x202F, 0x205F, 0x3000, 0xFEFF}
     \<or> 0x2000 \<le> unat c \<and> unat c \<le> 0x200A"

definition js_trim :: "jsstring \<Rightarrow> jsstring" where
  "js_trim s = rev (dropWhile js_space (rev (dropWhile js_space s)))"

fun starts_with :: "'a list \<Rightarrow> 'a list \<Rightarrow> bool" where
  "starts_with [] s \<longleftrightarrow> True"
| "starts_with (p # ps) (c # s) \<longleftrightarrow> p = c \<and> starts_with ps s"
| "starts_with (p # ps) [] \<longleftrightarrow> False"

text \<open>\<open>s.includes(p)\<close>, or a regular expression without operators.\<close>

fun contains :: "'a list \<Rightarrow> 'a list \<Rightarrow> bool" where
  "contains p [] \<longleftrightarrow> p = []"
| "contains p (c # s) \<longleftrightarrow> starts_with p (c # s) \<or> contains p s"

subsection \<open>Percent encoding\<close>

definition is_alnum :: "nat \<Rightarrow> bool" where
  "is_alnum c \<longleftrightarrow> 0x30 \<le> c \<and> c \<le> 0x39 \<or> 0x41 \<le> c \<and> c \<le> 0x5A \<or> 0x61 \<le> c \<and> c \<le> 0x7A"

definition uri_unreserved :: "nat \<Rightarrow> bool" where
  "uri_unreserved c \<longleftrightarrow> is_alnum c \<or> c \<in> {0x2D, 0x5F, 0x2E, 0x21, 0x7E, 0x2A, 0x27, 0x28, 0x29}"

definition hex_upper :: "nat \<Rightarrow> nat" where
  "hex_upper d = (if d < 10 then 0x30 + d else 0x37 + d)"

definition hex_value :: "nat \<Rightarrow> nat option" where
  "hex_value c = (if 0x30 \<le> c \<and> c \<le> 0x39 then Some (c - 0x30)
     else if 0x41 \<le> c \<and> c \<le> 0x46 then Some (c - 0x37)
     else if 0x61 \<le> c \<and> c \<le> 0x66 then Some (c - 0x57) else None)"

definition pct :: "nat \<Rightarrow> nat list" where
  "pct b = [0x25, hex_upper (b div 16), hex_upper (b mod 16)]"

fun encode_points :: "nat list \<Rightarrow> nat list result" where
  "encode_points [] = Inr []"
| "encode_points (c # cs) =
     (if \<not> scalar c then Inl URIError
      else rbind (encode_points cs) (\<lambda>r.
        Inr ((if uri_unreserved c then [c] else concat (map pct (utf8 c))) @ r)))"

definition encodeURIComponent :: "jsstring \<Rightarrow> jsstring result" where
  "encodeURIComponent s = rbind (encode_points (code_points s)) (\<lambda>r. Inr (map of_nat r))"

fun pct_byte :: "jsstring \<Rightarrow> (nat \<times> jsstring) option" where
  "pct_byte (p # a # b # r) =
     (if unat p = 0x25 then
        (case hex_value (unat a) of None \<Rightarrow> None | Some x \<Rightarrow>
         (case hex_value (unat b) of None \<Rightarrow> None | Some y \<Rightarrow> Some (16 * x + y, r)))
      else None)"
| "pct_byte _ = None"

fun pct_bytes :: "nat \<Rightarrow> jsstring \<Rightarrow> (nat list \<times> jsstring) option" where
  "pct_bytes 0 s = Some ([], s)"
| "pct_bytes (Suc n) s =
     (case pct_byte s of None \<Rightarrow> None | Some (b, r) \<Rightarrow>
      (case pct_bytes n r of None \<Rightarrow> None | Some (bs, r') \<Rightarrow> Some (b # bs, r')))"

definition utf8_len :: "nat \<Rightarrow> nat option" where
  "utf8_len b = (if b < 0x80 then Some 1 else if b < 0xC0 then None else if b < 0xE0 then Some 2
     else if b < 0xF0 then Some 3 else if b < 0xF8 then Some 4 else None)"

lemma pct_byte_shorter: "pct_byte s = Some (b, r) \<Longrightarrow> length r < length s"
  by (cases s rule: pct_byte.cases) (auto split: if_splits option.splits)

lemma pct_bytes_shorter: "pct_bytes n s = Some (bs, r) \<Longrightarrow> length r \<le> length s"
  by (induction n s arbitrary: bs rule: pct_bytes.induct)
     (fastforce split: option.splits dest: pct_byte_shorter)+

function decodeURIComponent :: "jsstring \<Rightarrow> jsstring result" where
  "decodeURIComponent [] = Inr []"
| "decodeURIComponent (c # s) =
     (if unat c \<noteq> 0x25 then rbind (decodeURIComponent s) (\<lambda>t. Inr (c # t))
      else case pct_byte (c # s) of None \<Rightarrow> Inl URIError
      | Some (b, r) \<Rightarrow> (case utf8_len b of None \<Rightarrow> Inl URIError
        | Some n \<Rightarrow> (case pct_bytes (n - 1) r of None \<Rightarrow> Inl URIError
          | Some (bs, r') \<Rightarrow> (case utf8_decode (b # bs) of
                [Some cp] \<Rightarrow> rbind (decodeURIComponent r') (\<lambda>t. Inr (units cp @ t))
              | _ \<Rightarrow> Inl URIError))))"
  by pat_completeness auto

termination
proof (relation "measure length")
  fix c :: "16 word" and s :: jsstring and x b r n y bs r' z l v cp
  assume "pct_byte (c # s) = Some x" "(b, r) = x" "pct_bytes (n - 1) r = Some y" "(bs, r') = y"
  then have "length r < length (c # s)" "length r' \<le> length r"
    by (auto dest: pct_byte_shorter pct_bytes_shorter)
  then show "(r', c # s) \<in> measure length" by simp
qed simp_all

subsection \<open>\<open>decodeURIComponent\<close> inverts \<open>encodeURIComponent\<close>\<close>

lemma hex_value_upper: "d < 16 \<Longrightarrow> hex_value (hex_upper d) = Some d"
  by (auto simp: hex_value_def hex_upper_def)

lemma hex_upper_less: "d < 16 \<Longrightarrow> hex_upper d < 128"
  by (auto simp: hex_upper_def)

lemma unat_of_nat_16: "n < 65536 \<Longrightarrow> unat (of_nat n :: 16 word) = n"
  by (simp add: unat_of_nat take_bit_nat_eq_self)

lemma pct_byte_pct: "b < 256 \<Longrightarrow> pct_byte (map of_nat (pct b) @ r) = Some (b, r)"
  using hex_upper_less [of "b div 16"] hex_upper_less [of "b mod 16"]
  by (simp add: pct_def unat_of_nat_16 hex_value_upper less_trans [of _ 128 65536] less_mult_imp_div_less)

lemma pct_bytes_pct:
  "\<forall>b\<in>set bs. b < 256 \<Longrightarrow> pct_bytes (length bs) (map of_nat (concat (map pct bs)) @ r) = Some (bs, r)"
  by (induction bs) (simp_all add: pct_byte_pct)

lemma utf8_len_utf8: "scalar c \<Longrightarrow> utf8_len (hd (utf8 c)) = Some (length (utf8 c))"
  by (auto simp: utf8_def utf8_len_def scalar_def less_mult_imp_div_less)

lemma pct_Cons: "map of_nat (pct b) = (of_nat 0x25 :: 16 word) # map of_nat [hex_upper (b div 16), hex_upper (b mod 16)]"
  by (simp add: pct_def)

lemma decode_pct_point:
  assumes "scalar c"
  shows "decodeURIComponent (map of_nat (concat (map pct (utf8 c))) @ r)
    = rbind (decodeURIComponent r) (\<lambda>t. Inr (units c @ t))"
proof -
  obtain b bs where u: "utf8 c = b # bs" by (cases "utf8 c") auto
  have bytes: "\<forall>x\<in>set (b # bs). x < 256" using utf8_bytes [of c] assms u by (auto simp: scalar_def)
  let ?r = "map of_nat (concat (map pct bs)) @ r"
  let ?s = "map of_nat [hex_upper (b div 16), hex_upper (b mod 16)] @ ?r"
  have s: "map of_nat (concat (map pct (utf8 c))) @ r = (of_nat 0x25 :: 16 word) # ?s"
    by (simp add: u pct_def)
  have "pct_byte ((of_nat 0x25 :: 16 word) # ?s) = Some (b, ?r)"
    using pct_byte_pct [of b ?r] bytes by (simp add: pct_def)
  moreover have "utf8_len b = Some (Suc (length bs))"
    using utf8_len_utf8 [OF assms] by (simp add: u)
  moreover have "utf8_decode (b # bs) = [Some c]"
    using utf8_decode_encode [of "[c]"] assms u by simp
  moreover have "pct_bytes (length bs) ?r = Some (bs, r)"
    using pct_bytes_pct [of bs r] bytes by simp
  ultimately show ?thesis
    unfolding s by (simp add: unat_of_nat_16 del: pct_byte.simps)
qed

lemma unreserved_small: "uri_unreserved c \<Longrightarrow> c < 128 \<and> c \<noteq> 0x25"
  by (auto simp: uri_unreserved_def is_alnum_def)

lemma decode_encode_points:
  "encode_points cs = Inr r \<Longrightarrow> decodeURIComponent (map of_nat r) = Inr (concat (map units cs))"
proof (induction cs arbitrary: r)
  case (Cons c cs)
  then obtain r' where r': "scalar c" "encode_points cs = Inr r'"
      "r = (if uri_unreserved c then [c] else concat (map pct (utf8 c))) @ r'"
    by (auto simp: rbind_eq_Inr split: if_splits)
  then show ?case
    using Cons.IH [OF r'(2)] decode_pct_point [OF r'(1), of "map of_nat r'"] unreserved_small [of c]
    by (auto simp: unat_of_nat_16 units_def)
qed simp

lemma encode_points_ok: "list_all scalar cs \<Longrightarrow> \<exists>r. encode_points cs = Inr r"
  by (induction cs) auto

lemma encodeURIComponent_decode:
  "encodeURIComponent s = Inr e \<Longrightarrow> decodeURIComponent e = Inr s"
  by (auto simp: encodeURIComponent_def rbind_eq_Inr decode_encode_points units_code_points)

lemma encodeURIComponent_ok: "well_formed s \<Longrightarrow> \<exists>e. encodeURIComponent s = Inr e"
  using encode_points_ok [of "code_points s"] by (auto simp: well_formed_def encodeURIComponent_def)

text \<open>The characters \<open>encodeURIComponent\<close> can produce.\<close>

lemma hex_upper_alnum: "d < 16 \<Longrightarrow> is_alnum (hex_upper d)"
  by (auto simp: hex_upper_def is_alnum_def)

lemma encode_points_chars:
  "encode_points cs = Inr r \<Longrightarrow> x \<in> set r \<Longrightarrow> uri_unreserved x \<or> x = 0x25"
proof (induction cs arbitrary: r)
  case (Cons c cs)
  have "uri_unreserved x \<or> x = 0x25" if "x \<in> set (pct b)" "b < 256" for b
    using that hex_upper_alnum [of "b div 16"] hex_upper_alnum [of "b mod 16"]
    by (auto simp: pct_def uri_unreserved_def less_mult_imp_div_less)
  then have "uri_unreserved x \<or> x = 0x25" if "x \<in> set (concat (map pct (utf8 c)))" "scalar c"
    using that utf8_bytes [of c] by (fastforce simp: scalar_def)
  with Cons show ?case by (fastforce simp: rbind_eq_Inr split: if_splits)
qed simp

subsection \<open>\<open>TextEncoder\<close> and \<open>URLSearchParams\<close>\<close>

text \<open>A lone surrogate is encoded as U+FFFD.\<close>

definition text_encode :: "jsstring \<Rightarrow> nat list" where
  "text_encode s = concat (map (\<lambda>c. utf8 (if scalar c then c else 0xFFFD)) (code_points s))"

fun percent_decode :: "nat list \<Rightarrow> nat list" where
  "percent_decode (c # a # b # r) =
     (if c = 0x25 \<and> hex_value a \<noteq> None \<and> hex_value b \<noteq> None
      then (16 * the (hex_value a) + the (hex_value b)) # percent_decode r
      else c # percent_decode (a # b # r))"
| "percent_decode (c # r) = c # percent_decode r"
| "percent_decode [] = []"

definition form_decode :: "nat list \<Rightarrow> jsstring" where
  "form_decode bs = concat (map (\<lambda>x. units (case x of None \<Rightarrow> 0xFFFD | Some c \<Rightarrow> c))
     (utf8_decode (percent_decode (map (\<lambda>b. if b = 0x2B then 0x20 else b) bs))))"

definition form_pair :: "nat list \<Rightarrow> jsstring \<times> jsstring" where
  "form_pair seq = (form_decode (takeWhile (\<lambda>b. b \<noteq> 0x3D) seq), form_decode (drop 1 (dropWhile (\<lambda>b. b \<noteq> 0x3D) seq)))"

text \<open>\<open>new URLSearchParams(s)\<close>: a leading question mark is dropped.\<close>

definition search_params :: "jsstring \<Rightarrow> (jsstring \<times> jsstring) list" where
  "search_params s =
     map form_pair (filter (\<lambda>seq. seq \<noteq> [])
       (split_on 0x26 (text_encode (if starts_with [0x3F] s then drop 1 s else s))))"

definition search_get :: "jsstring \<Rightarrow> (jsstring \<times> jsstring) list \<Rightarrow> jsstring option" where
  "search_get k ps = map_of ps k"

definition search_has :: "jsstring \<Rightarrow> (jsstring \<times> jsstring) list \<Rightarrow> bool" where
  "search_has k ps \<longleftrightarrow> k \<in> fst ` set ps"

lemma code_points_ascii: "\<forall>c\<in>set s. unat c < 0x80 \<Longrightarrow> code_points s = map unat s"
  by (induction s rule: code_points.induct) (auto simp: high_surrogate_def)

lemma scalar_ascii: "c < 0x80 \<Longrightarrow> scalar c"
  by (simp add: scalar_def high_surrogate_def low_surrogate_def)

lemma text_encode_ascii: "\<forall>c\<in>set s. unat c < 0x80 \<Longrightarrow> text_encode s = map unat s"
  unfolding text_encode_def code_points_ascii
  by (induction s) (simp_all add: code_points_ascii scalar_ascii utf8_def)

lemma text_encode_scalars: "well_formed s \<Longrightarrow> text_encode s = concat (map utf8 (code_points s))"
  by (simp add: text_encode_def well_formed_def list_all_iff cong: map_cong)

lemma percent_decode_plain: "\<forall>b\<in>set bs. b \<noteq> 0x25 \<Longrightarrow> percent_decode (bs @ r) = bs @ percent_decode r"
  by (induction bs rule: percent_decode.induct) (auto simp: neq_Nil_conv split: list.splits, (cases r rule: percent_decode.cases; simp)+)

lemma percent_decode_pct: "b < 256 \<Longrightarrow> percent_decode (pct b @ r) = b # percent_decode r"
  by (simp add: pct_def hex_value_upper less_mult_imp_div_less)

lemma percent_decode_pcts: "\<forall>b\<in>set bs. b < 256 \<Longrightarrow> percent_decode (concat (map pct bs) @ r) = bs @ percent_decode r"
  by (induction bs) (simp_all add: percent_decode_pct)

lemma percent_decode_encode:
  "encode_points cs = Inr r \<Longrightarrow> percent_decode r = concat (map utf8 cs)"
proof (induction cs arbitrary: r)
  case (Cons c cs)
  then obtain r' where r': "scalar c" "encode_points cs = Inr r'"
      "r = (if uri_unreserved c then [c] else concat (map pct (utf8 c))) @ r'"
    by (auto simp: rbind_eq_Inr split: if_splits)
  have "\<forall>b\<in>set (utf8 c). b < 256" using utf8_bytes [of c] r'(1) by (auto simp: scalar_def)
  moreover have "uri_unreserved c \<Longrightarrow> utf8 c = [c] \<and> percent_decode (c # r') = c # percent_decode r'"
    using percent_decode_plain [of "[c]" r'] unreserved_small [of c] by (simp add: utf8_def)
  ultimately show ?case
    using r' Cons.IH [OF r'(2)] by (simp add: percent_decode_pcts)
qed simp

lemma encode_points_scalar: "encode_points cs = Inr r \<Longrightarrow> list_all scalar cs"
  by (induction cs arbitrary: r) (auto simp: rbind_eq_Inr split: if_splits)

lemma encoded_range: "encode_points cs = Inr r \<Longrightarrow> x \<in> set r \<Longrightarrow> x < 0x80 \<and> x \<noteq> 0x2B \<and> x \<noteq> 0x26 \<and> x \<noteq> 0x3D \<and> x \<noteq> 0x3F"
  using encode_points_chars [of cs r x] by (auto simp: uri_unreserved_def is_alnum_def)

lemma form_decode_encoded:
  assumes "encode_points (code_points s) = Inr r"
  shows "form_decode r = s"
proof -
  have "map (\<lambda>b. if b = 0x2B then 0x20 else b) r = r"
    using encoded_range [OF assms] by (intro map_idI) auto
  then show ?thesis
    using percent_decode_encode [OF assms] utf8_decode_encode [OF encode_points_scalar [OF assms]]
    by (simp add: form_decode_def comp_def units_code_points)
qed

lemma form_decode_plain:
  assumes "\<forall>c\<in>set s. is_alnum (unat c)"
  shows "form_decode (map unat s) = s"
proof -
  have r: "\<forall>c\<in>set s. unat c < 0x80" using assms by (auto simp: is_alnum_def)
  have plus: "map (\<lambda>b. if b = 0x2B then 0x20 else b) (map unat s) = map unat s"
    using assms by (intro map_idI) (auto simp: is_alnum_def)
  have pd: "percent_decode (map unat s) = map unat s"
    using percent_decode_plain [of "map unat s" "[]"] assms by (fastforce simp: is_alnum_def)
  have "concat (map utf8 (map unat s)) = map unat s"
    using r by (induction s) (simp_all add: utf8_def)
  then have ud: "utf8_decode (map unat s) = map Some (map unat s)"
    using utf8_decode_encode [of "map unat s"] r by (simp add: list_all_iff scalar_ascii)
  have "concat (map (\<lambda>c. units (unat c)) s) = s"
    by (induction s) simp_all
  then show ?thesis
    unfolding form_decode_def plus pd ud by (simp add: comp_def)
qed

text \<open>A hash or query \<open>key=encodeURIComponent(p)\<close> read back with \<open>URLSearchParams\<close>.\<close>

lemma search_get_encoded:
  assumes k: "\<forall>c\<in>set k. is_alnum (unat c)" "k \<noteq> []" and e: "encodeURIComponent p = Inr e"
  shows "search_get k (search_params (k @ of_nat 0x3D # e)) = Some p"
proof -
  obtain r where r: "encode_points (code_points p) = Inr r" "e = map of_nat r"
    using e by (auto simp: encodeURIComponent_def rbind_eq_Inr)
  have ur: "map unat e = r"
    using encoded_range [OF r(1)] by (simp add: r(2) comp_def) (intro map_idI, simp add: unat_of_nat_16 less_trans [of _ 128 65536])
  have kr: "\<forall>c\<in>set k. unat c < 0x80 \<and> unat c \<noteq> 0x26 \<and> unat c \<noteq> 0x3D \<and> unat c \<noteq> 0x3F"
    using k(1) by (auto simp: is_alnum_def)
  let ?s = "k @ of_nat 0x3D # e"
  have "\<forall>c\<in>set ?s. unat c < 0x80"
    using kr encoded_range [OF r(1)] by (auto simp: r(2) unat_of_nat_16 less_trans [of _ 128 65536])
  then have enc: "text_encode ?s = map unat k @ 0x3D # r"
    using ur by (simp add: text_encode_ascii unat_of_nat_16)
  have "\<not> starts_with [0x3F] ?s"
    using k(2) kr by (cases k) (auto simp: unat_of_nat_16)
  moreover have "split_on 0x26 (map unat k @ 0x3D # r) = [map unat k @ 0x3D # r]"
    using kr encoded_range [OF r(1)] by (intro split_on_free) auto
  moreover have "form_pair (map unat k @ 0x3D # r) = (k, p)"
    using kr form_decode_plain [OF k(1)] form_decode_encoded [OF r(1)]
    by (auto simp: form_pair_def takeWhile_append dropWhile_append)
  ultimately show ?thesis
    using enc by (simp add: search_params_def search_get_def)
qed

lemma encodeURIComponent_units:
  assumes "encodeURIComponent p = Inr e" "c \<in> set e"
  shows "uri_unreserved (unat c) \<or> unat c = 0x25"
  using assms encode_points_chars encoded_range
  by (fastforce simp: encodeURIComponent_def rbind_eq_Inr unat_of_nat_16)

end
