(* ===== verification/Interfaces.thy ===== *)
theory Interfaces
  imports Prelude
begin

text \<open>
  The contracts several components share: machines whose runs keep an invariant, promises that settle
  with the first event that decides, and encodings that are read back, alone and stacked. Each
  component that fulfils one interprets it on its own operations.
\<close>

subsection \<open>Machines with an invariant\<close>

fun run_events :: "('e \<Rightarrow> 's \<Rightarrow> 's option) \<Rightarrow> 'e list \<Rightarrow> 's \<Rightarrow> 's option" where
  "run_events step [] s = Some s"
| "run_events step (e # es) s = (case step e s of None \<Rightarrow> None | Some s' \<Rightarrow> run_events step es s')"

locale machine =
  fixes step :: "'e \<Rightarrow> 's \<Rightarrow> 's option" and inv :: "'s \<Rightarrow> bool"
  assumes step_inv: "step e s = Some s' \<Longrightarrow> inv s \<Longrightarrow> inv s'"
begin

lemma run_inv: "run_events step es s = Some s' \<Longrightarrow> inv s \<Longrightarrow> inv s'"
  by (induction es arbitrary: s) (auto split: option.splits dest: step_inv)

lemma run_append:
  "run_events step (es @ fs) s = (case run_events step es s of None \<Rightarrow> None | Some s' \<Rightarrow> run_events step fs s')"
  by (induction es arbitrary: s) (auto split: option.splits)

end

text \<open>A machine with a weight that an event raises by no more than its cost.\<close>

fun run_cost :: "('e \<Rightarrow> 's \<Rightarrow> 's option) \<Rightarrow> ('e \<Rightarrow> 's \<Rightarrow> nat) \<Rightarrow> 'e list \<Rightarrow> 's \<Rightarrow> nat" where
  "run_cost step cost [] s = 0"
| "run_cost step cost (e # es) s =
     cost e s + (case step e s of None \<Rightarrow> 0 | Some s' \<Rightarrow> run_cost step cost es s')"

locale weighted_machine = machine step inv
  for step :: "'e \<Rightarrow> 's \<Rightarrow> 's option" and inv :: "'s \<Rightarrow> bool" +
  fixes weight :: "'s \<Rightarrow> nat" and cost :: "'e \<Rightarrow> 's \<Rightarrow> nat"
  assumes step_weight: "step e s = Some s' \<Longrightarrow> inv s \<Longrightarrow> weight s' \<le> weight s + cost e s"
begin

lemma run_weight:
  "run_events step es s = Some s' \<Longrightarrow> inv s \<Longrightarrow> weight s' \<le> weight s + run_cost step cost es s"
proof (induction es arbitrary: s)
  case (Cons e es)
  then obtain t where t: "step e s = Some t" "run_events step es t = Some s'" by (auto split: option.splits)
  then show ?case using step_weight [OF t(1) Cons.prems(2)] Cons.IH [OF t(2) step_inv [OF t(1) Cons.prems(2)]] by simp
qed simp

end

subsection \<open>Promises\<close>

fun first_decision :: "('e \<Rightarrow> 'r option) \<Rightarrow> 'e list \<Rightarrow> 'r option" where
  "first_decision decides [] = None"
| "first_decision decides (e # es) = (case decides e of None \<Rightarrow> first_decision decides es | Some r \<Rightarrow> Some r)"

lemma first_decision_None: "first_decision d es = None \<longleftrightarrow> (\<forall>e\<in>set es. d e = None)"
  by (induction es) (auto split: option.splits)

lemma first_decision_Some: "first_decision d es = Some r \<Longrightarrow> \<exists>e\<in>set es. d e = Some r"
  by (induction es) (auto split: option.splits)

locale promise =
  fixes step :: "'e \<Rightarrow> 's \<Rightarrow> 's" and decides :: "'e \<Rightarrow> 'r option"
    and pending :: "'s \<Rightarrow> bool" and settled :: "'r \<Rightarrow> 's \<Rightarrow> bool"
  assumes step_undecided: "pending s \<Longrightarrow> decides e = None \<Longrightarrow> pending (step e s)"
    and step_decided: "pending s \<Longrightarrow> decides e = Some r \<Longrightarrow> settled r (step e s)"
    and step_settled: "settled r s \<Longrightarrow> step e s = s"
begin

lemma fold_settled: "settled r s \<Longrightarrow> fold step es s = s"
  by (induction es) (simp_all add: step_settled)

lemma first_wins:
  "pending s \<Longrightarrow> (case first_decision decides es of None \<Rightarrow> pending (fold step es s) | Some r \<Rightarrow> settled r (fold step es s))"
proof (induction es arbitrary: s)
  case (Cons e es)
  show ?case
  proof (cases "decides e")
    case None
    then show ?thesis using Cons.IH [OF step_undecided [OF Cons.prems None]] by (simp split: option.splits)
  next
    case (Some r)
    note d = step_decided [OF Cons.prems Some]
    then show ?thesis using Some d fold_settled [OF d] by simp
  qed
qed simp

end

subsection \<open>Encodings\<close>

text \<open>
  \<open>form p\<close> is the encoding of what has the content \<open>p\<close>; a decoded value has that content again.
\<close>

locale codec =
  fixes encode :: "'a \<Rightarrow> 'b result" and decode :: "'b \<Rightarrow> 'c result" and form :: "'p \<Rightarrow> 'b"
    and holds :: "'a \<Rightarrow> 'p \<Rightarrow> bool" and yields :: "'c \<Rightarrow> 'p \<Rightarrow> bool" and valid :: "'p \<Rightarrow> bool"
  assumes encodes: "valid p \<Longrightarrow> holds x p \<Longrightarrow> encode x = Inr (form p)"
    and decodes: "valid p \<Longrightarrow> \<exists>y. decode (form p) = Inr y \<and> yields y p"
begin

lemma roundtrip: "valid p \<Longrightarrow> holds x p \<Longrightarrow> \<exists>b y. encode x = Inr b \<and> decode b = Inr y \<and> yields y p"
  using encodes decodes by blast

end

text \<open>One encoding on top of another: a link is the URI encoding of a packed description.\<close>

locale codec_stack =
  outer: codec encode decode form holds yields valid +
  inner: codec encode' decode' form' "\<lambda>b p. b = p" "\<lambda>b p. b = p" valid'
  for encode :: "'a \<Rightarrow> 'b result" and decode :: "'b \<Rightarrow> 'c result" and form :: "'p \<Rightarrow> 'b"
    and holds :: "'a \<Rightarrow> 'p \<Rightarrow> bool" and yields :: "'c \<Rightarrow> 'p \<Rightarrow> bool" and valid :: "'p \<Rightarrow> bool"
    and encode' :: "'b \<Rightarrow> 'd result" and decode' :: "'d \<Rightarrow> 'b result" and form' :: "'b \<Rightarrow> 'd"
    and valid' :: "'b \<Rightarrow> bool" +
  assumes form_valid: "valid p \<Longrightarrow> valid' (form p)"

sublocale codec_stack \<subseteq> stack: codec "\<lambda>x. rbind (encode x) encode'" "\<lambda>d. rbind (decode' d) decode"
    "\<lambda>p. form' (form p)" holds yields valid
proof (unfold_locales, goal_cases)
  case (1 p x)
  then show ?case using outer.encodes [OF 1] inner.encodes [OF form_valid [OF 1(1)] refl] by (simp add: rbind_def)
next
  case (2 p)
  then show ?case using outer.decodes [OF 2] inner.decodes [OF form_valid [OF 2]] by (auto simp: rbind_def)
qed

end
