(* ===== verification/Chat_Link.thy ===== *)
theory Chat_Link
  imports JS_URI Interfaces
begin

text \<open>
  The SDP compaction of \<open>examples/chat/chat.js\<close>: base64url, the fingerprint bytes, \<open>packSdp\<close> and
  \<open>unpackSdp\<close>. A regular expression of the source is a parser of one capture, tried at every
  position from the left; none of the expressions used can backtrack, since each repeated class
  excludes the character that follows it.
\<close>

subsection \<open>\<open>btoa\<close> and \<open>atob\<close>\<close>

fun sextets :: "nat list \<Rightarrow> nat list" where
  "sextets (a # b # c # r) = a div 4 # (a mod 4 * 16 + b div 16) # (b mod 16 * 4 + c div 64) # c mod 64 # sextets r"
| "sextets [a, b] = [a div 4, a mod 4 * 16 + b div 16, b mod 16 * 4]"
| "sextets [a] = [a div 4, a mod 4 * 16]"
| "sextets [] = []"

fun unsextets :: "nat list \<Rightarrow> nat list" where
  "unsextets (a # b # c # d # r) = (a * 4 + b div 16) # (b mod 16 * 16 + c div 4) # (c mod 4 * 64 + d) # unsextets r"
| "unsextets [a, b, c] = [a * 4 + b div 16, b mod 16 * 16 + c div 4]"
| "unsextets [a, b] = [a * 4 + b div 16]"
| "unsextets _ = []"

definition b64_char :: "nat \<Rightarrow> nat" where
  "b64_char n = (if n < 26 then 0x41 + n else if n < 52 then 0x61 + (n - 26)
     else if n < 62 then 0x30 + (n - 52) else if n = 62 then 0x2B else 0x2F)"

definition b64_value :: "nat \<Rightarrow> nat option" where
  "b64_value c = (if 0x41 \<le> c \<and> c \<le> 0x5A then Some (c - 0x41)
     else if 0x61 \<le> c \<and> c \<le> 0x7A then Some (c - 0x61 + 26)
     else if 0x30 \<le> c \<and> c \<le> 0x39 then Some (c - 0x30 + 52)
     else if c = 0x2B then Some 62 else if c = 0x2F then Some 63 else None)"

definition btoa :: "jsstring \<Rightarrow> jsstring result" where
  "btoa s = (if \<exists>c\<in>set s. 0xFF < unat c then Inl InvalidCharacterError
     else Inr (map (of_nat \<circ> b64_char) (sextets (map unat s)) @ replicate ((3 - length s mod 3) mod 3) 0x3D))"

definition strip_padding :: "jsstring \<Rightarrow> jsstring" where
  "strip_padding s =
     (if length s mod 4 \<noteq> 0 then s
      else case rev s of a # b # r \<Rightarrow> if a = 0x3D then if b = 0x3D then rev r else rev (b # r) else s
        | _ \<Rightarrow> s)"

definition atob :: "jsstring \<Rightarrow> jsstring result" where
  "atob s =
     (let t = strip_padding (filter (\<lambda>c. unat c \<notin> {9, 10, 12, 13, 0x20}) s)
      in if length t mod 4 = 1 \<or> (\<exists>c\<in>set t. b64_value (unat c) = None) then Inl InvalidCharacterError
         else Inr (map of_nat (unsextets (map (\<lambda>c. the (b64_value (unat c))) t))))"

subsection \<open>base64url and fingerprints\<close>

text \<open>\<open>String.fromCharCode\<close> of a number; \<open>NaN\<close> gives the character 0.\<close>

definition fromCharCode :: "nat option \<Rightarrow> 16 word" where
  "fromCharCode n = (case n of None \<Rightarrow> 0 | Some k \<Rightarrow> of_nat k)"

text \<open>\<open>replace(/\+/g, "-").replace(/\//g, "_")\<close> on one character, and back.\<close>

definition to_url :: "16 word \<Rightarrow> 16 word" where
  "to_url c = (if c = 0x2B then 0x2D else if c = 0x2F then 0x5F else c)"

definition from_url :: "16 word \<Rightarrow> 16 word" where
  "from_url c = (if c = 0x2D then 0x2B else if c = 0x5F then 0x2F else c)"

definition b64u :: "nat option list \<Rightarrow> jsstring result" where
  "b64u bytes = rbind (btoa (map fromCharCode bytes)) (\<lambda>s.
     Inr (rev (dropWhile (\<lambda>c. c = 0x3D) (rev (map to_url s)))))"

definition unb64u :: "jsstring \<Rightarrow> nat list result" where
  "unb64u s = rbind (atob (map from_url s)) (\<lambda>t. Inr (map unat t))"

text \<open>\<open>parseInt(h, 16)\<close> of a run of hexadecimal digits; \<open>None\<close> is \<open>NaN\<close>.\<close>

definition parse_hex :: "jsstring \<Rightarrow> nat option" where
  "parse_hex h = (case takeWhile (\<lambda>c. hex_value (unat c) \<noteq> None) h of [] \<Rightarrow> None
     | ds \<Rightarrow> Some (foldl (\<lambda>n c. n * 16 + the (hex_value (unat c))) 0 ds))"

definition fpToB64 :: "jsstring \<Rightarrow> jsstring result" where
  "fpToB64 hex = b64u (map parse_hex (split_on 0x3A hex))"

definition hex_lower :: "nat \<Rightarrow> nat" where
  "hex_lower d = (if d < 10 then 0x30 + d else 0x57 + d)"

text \<open>\<open>x.toString(16).padStart(2, "0").toUpperCase()\<close> of a byte.\<close>

definition to_string_16 :: "nat \<Rightarrow> nat list" where
  "to_string_16 x = (if x < 16 then [hex_lower x] else [hex_lower (x div 16), hex_lower (x mod 16)])"

definition pad_start_2 :: "nat list \<Rightarrow> nat list" where
  "pad_start_2 s = replicate (2 - length s) 0x30 @ s"

definition to_upper :: "nat \<Rightarrow> nat" where
  "to_upper c = (if 0x61 \<le> c \<and> c \<le> 0x7A then c - 0x20 else c)"

definition b64ToFp :: "jsstring \<Rightarrow> jsstring result" where
  "b64ToFp b = rbind (unb64u b) (\<lambda>bytes.
     Inr (join [0x3A] (map (\<lambda>x. map (of_nat \<circ> to_upper) (pad_start_2 (to_string_16 x))) bytes)))"

subsection \<open>The round trips\<close>

lemma sextets_less: "\<forall>b\<in>set bs. b < 256 \<Longrightarrow> \<forall>x\<in>set (sextets bs). x < 64"
  by (induction bs rule: sextets.induct) (auto simp: less_mult_imp_div_less)

lemma byte_split:
  fixes x :: nat
  assumes "y < 16"
  shows "x div 4 * 4 + (x mod 4 * 16 + y) div 16 = x"
proof -
  have "(x mod 4 * 16 + y) div 16 = x mod 4" using assms by simp
  then show ?thesis by simp
qed

lemma unsextets_sextets: "\<forall>b\<in>set bs. b < 256 \<Longrightarrow> unsextets (sextets bs) = bs"
proof (induction bs rule: sextets.induct)
  case (1 a b c r)
  have b: "b div 16 < 16" "c div 64 < 4" using 1 by (auto simp: less_mult_imp_div_less)
  have "(a mod 4 * 16 + b div 16) mod 16 * 16 + (b mod 16 * 4 + c div 64) div 4 = b"
    using b by simp
  moreover have "(b mod 16 * 4 + c div 64) mod 4 * 64 + c mod 64 = c" using b by simp
  ultimately show ?case using 1 byte_split [OF b(1), of a] by simp
next
  case (2 a b)
  then have b: "b div 16 < 16" by (auto simp: less_mult_imp_div_less)
  then have "(a mod 4 * 16 + b div 16) mod 16 * 16 + (b mod 16 * 4) div 4 = b" by simp
  then show ?case using byte_split [OF b(1), of a] by simp
qed (use byte_split [of 0] in auto)

lemma length_sextets: "length (sextets bs) mod 4 = (case length bs mod 3 of 0 \<Rightarrow> 0 | Suc 0 \<Rightarrow> 2 | _ \<Rightarrow> 3)"
  by (induction bs rule: sextets.induct) auto

lemma b64_value_char: "n < 64 \<Longrightarrow> b64_value (b64_char n) = Some n"
  by (auto simp: b64_char_def b64_value_def)

text \<open>The alphabet of base64url.\<close>

definition b64u_char :: "nat \<Rightarrow> nat" where
  "b64u_char n = (if n = 62 then 0x2D else if n = 63 then 0x5F else b64_char n)"

lemma b64_char_range: "n < 64 \<Longrightarrow> b64_char n < 128 \<and> b64_char n \<noteq> 0x3D \<and> b64_char n \<noteq> 0x2D \<and> b64_char n \<noteq> 0x5F"
  by (auto simp: b64_char_def)

lemma b64u_char_alphabet: "n < 64 \<Longrightarrow> is_alnum (b64u_char n) \<or> b64u_char n = 0x2D \<or> b64u_char n = 0x5F"
  by (auto simp: b64u_char_def b64_char_def is_alnum_def)

lemma of_nat_16_eq: "n < 65536 \<Longrightarrow> m < 65536 \<Longrightarrow> (of_nat n :: 16 word) = of_nat m \<longleftrightarrow> n = m"
  by (metis unat_of_nat_16)

lemma of_nat_16_numeral: "n < 65536 \<Longrightarrow> numeral k < (65536 :: nat) \<Longrightarrow> (of_nat n :: 16 word) = numeral k \<longleftrightarrow> n = numeral k"
  using of_nat_16_eq [of n "numeral k"] by simp

lemma b64_translate:
  assumes "n < 64"
  shows "to_url (of_nat (b64_char n)) = of_nat (b64u_char n)"
  using assms b64_char_range [OF assms]
  by (auto simp: to_url_def of_nat_16_numeral b64u_char_def b64_char_def split: if_splits)

lemma b64_untranslate:
  assumes "n < 64"
  shows "from_url (of_nat (b64u_char n)) = of_nat (b64_char n)"
  using assms b64_char_range [OF assms]
  by (auto simp: from_url_def of_nat_16_numeral b64u_char_def b64_char_def split: if_splits)

lemma b64u_bytes:
  assumes "\<forall>b\<in>set bs. b < 256"
  shows "b64u (map Some bs) = Inr (map (of_nat \<circ> b64u_char) (sextets bs))"
proof -
  note six = sextets_less [OF assms]
  have chars: "map fromCharCode (map Some bs) = map of_nat bs"
    by (simp add: fromCharCode_def)
  have un: "map unat (map of_nat bs :: jsstring) = bs"
    using assms by (auto simp: unat_of_nat_16 intro!: map_idI)
  have "\<not> (\<exists>c\<in>set (map of_nat bs :: jsstring). 0xFF < unat c)"
    using assms by (auto simp: unat_of_nat_16 not_less less_Suc_eq_le [symmetric])
  then have bt: "btoa (map of_nat bs) = Inr (map (of_nat \<circ> b64_char) (sextets bs) @ replicate ((3 - length bs mod 3) mod 3) 0x3D)"
    unfolding btoa_def un by simp
  have tr: "map to_url (map (of_nat \<circ> b64_char) (sextets bs))
      = (map (of_nat \<circ> b64u_char) (sextets bs) :: jsstring)"
    using six by (simp add: b64_translate)
  have dw: "dropWhile (\<lambda>c. c = 0x3D) (rev (map (of_nat \<circ> b64u_char) (sextets bs) :: jsstring))
      = rev (map (of_nat \<circ> b64u_char) (sextets bs))"
  proof -
    have "\<forall>c\<in>set (rev (map (of_nat \<circ> b64u_char) (sextets bs) :: jsstring)). c \<noteq> 0x3D"
    proof
      fix c assume "c \<in> set (rev (map (of_nat \<circ> b64u_char) (sextets bs) :: jsstring))"
      then obtain n where n: "n < 64" "c = of_nat (b64u_char n)" using six by auto
      then show "c \<noteq> 0x3D"
        using b64u_char_alphabet [OF n(1)] by (auto simp: of_nat_16_numeral is_alnum_def)
    qed
    then show ?thesis by (cases "rev (map (of_nat \<circ> b64u_char) (sextets bs) :: jsstring)") auto
  qed
  have pad: "map to_url (replicate k 0x3D) = replicate k 0x3D"
      "dropWhile (\<lambda>c. c = 0x3D) (replicate k 0x3D @ xs) = dropWhile (\<lambda>c. c = 0x3D) xs" for k and xs :: jsstring
    by (simp add: map_replicate to_url_def, induction k) simp_all
  show ?thesis
    unfolding b64u_def chars bt
    by (simp only: rbind_Inr map_append tr pad(1) rev_append rev_replicate pad(2) dw rev_rev_ident)
qed

lemma unb64u_sextets:
  assumes "\<forall>b\<in>set bs. b < 256"
  shows "unb64u (map (of_nat \<circ> b64u_char) (sextets bs)) = Inr bs"
proof -
  note six = sextets_less [OF assms]
  let ?t = "map (of_nat \<circ> b64_char) (sextets bs) :: jsstring"
  have tr: "map from_url (map (of_nat \<circ> b64u_char) (sextets bs)) = ?t"
    using six by (simp add: b64_untranslate)
  have un: "unat (of_nat (b64_char n) :: 16 word) = b64_char n" if "n \<in> set (sextets bs)" for n
    using that six b64_char_range [of n] by (simp add: unat_of_nat_16)
  have plain: "filter (\<lambda>c. unat c \<notin> {9, 10, 12, 13, 0x20}) ?t = ?t"
    using six un by (auto simp: filter_id_conv) (auto simp: b64_char_def split: if_splits)
  have last: "c \<noteq> 0x3D" if "c \<in> set ?t" for c
  proof -
    from that obtain n where n: "n < 64" "c = of_nat (b64_char n)" using six by auto
    then show ?thesis using b64_char_range [OF n(1)] by (auto simp: of_nat_16_numeral)
  qed
  have "strip_padding ?t = ?t"
  proof (cases "rev ?t")
    case (Cons a r)
    then have "a \<in> set ?t" by (metis list.set_intros(1) set_rev)
    then have "a \<noteq> 0x3D" by (rule last)
    with Cons show ?thesis by (auto simp: strip_padding_def split: list.splits)
  qed (auto simp: strip_padding_def split: list.splits)
  moreover have "length ?t mod 4 \<noteq> 1" by (simp add: length_sextets split: nat.split)
  moreover have "map (\<lambda>c. the (b64_value (unat c))) ?t = sextets bs"
    using six by (auto simp: un b64_value_char intro!: map_idI)
  moreover have "\<not> (\<exists>c\<in>set ?t. b64_value (unat c) = None)"
    using six by (auto simp: un b64_value_char)
  ultimately have "atob ?t = Inr (map of_nat (unsextets (sextets bs)))"
    unfolding atob_def plain Let_def by (simp del: map_map)
  moreover have "map unat (map of_nat bs :: jsstring) = bs"
    using assms by (auto simp: unat_of_nat_16 intro!: map_idI)
  ultimately show ?thesis
    unfolding unb64u_def tr by (simp add: unsextets_sextets [OF assms] del: map_map)
qed

definition byte_hex :: "nat \<Rightarrow> jsstring" where
  "byte_hex x = map (of_nat \<circ> to_upper) (pad_start_2 (to_string_16 x))"

lemma upper_lower: "d < 16 \<Longrightarrow> to_upper (hex_lower d) = hex_upper d"
  by (auto simp: to_upper_def hex_lower_def hex_upper_def)

lemma byte_hex_digits:
  assumes "x < 256"
  shows "byte_hex x = [of_nat (hex_upper (x div 16)), of_nat (hex_upper (x mod 16))]"
proof (cases "x < 16")
  case True
  then show ?thesis
    by (simp add: byte_hex_def pad_start_2_def to_string_16_def upper_lower) (simp add: to_upper_def hex_upper_def)
next
  case False
  with assms show ?thesis
    by (simp add: byte_hex_def pad_start_2_def to_string_16_def upper_lower less_mult_imp_div_less)
qed

lemma parse_byte_hex: "x < 256 \<Longrightarrow> parse_hex (byte_hex x) = Some x"
proof -
  assume x: "x < 256"
  have "hex_value (unat (of_nat (hex_upper d) :: 16 word)) = Some d" if "d < 16" for d
    using that hex_upper_less [OF that] by (simp add: unat_of_nat_16 hex_value_upper)
  with x show ?thesis
    by (simp add: byte_hex_digits parse_hex_def less_mult_imp_div_less)
qed

lemma byte_hex_chars:
  assumes "x < 256" "c \<in> set (byte_hex x)"
  shows "hex_value (unat c) \<noteq> None \<and> is_alnum (unat c)"
proof -
  have d: "hex_value (unat (of_nat (hex_upper d) :: 16 word)) \<noteq> None \<and> is_alnum (unat (of_nat (hex_upper d) :: 16 word))"
    if "d < 16" for d
    using hex_upper_less [OF that] hex_value_upper [OF that] hex_upper_alnum [OF that] by (simp add: unat_of_nat_16)
  have "x div 16 < 16" "x mod 16 < 16" using assms(1) by (simp_all add: less_mult_imp_div_less)
  with d assms show ?thesis by (auto simp: byte_hex_digits)
qed

lemma colon_free: "x < 256 \<Longrightarrow> 0x3A \<notin> set (byte_hex x)"
  using byte_hex_chars [of x "0x3A"] by (auto simp: is_alnum_def)

definition fingerprint :: "nat list \<Rightarrow> jsstring" where
  "fingerprint bs = join [0x3A] (map byte_hex bs)"

lemma fpToB64_fingerprint:
  assumes "bs \<noteq> []" "\<forall>b\<in>set bs. b < 256"
  shows "fpToB64 (fingerprint bs) = Inr (map (of_nat \<circ> b64u_char) (sextets bs))"
proof -
  have "split_on 0x3A (fingerprint bs) = map byte_hex bs"
    unfolding fingerprint_def using assms colon_free by (intro split_on_join) auto
  moreover have "map parse_hex (map byte_hex bs) = map Some bs"
    using assms(2) by (simp add: parse_byte_hex)
  ultimately show ?thesis
    using b64u_bytes [OF assms(2)] by (simp only: fpToB64_def)
qed

lemma b64ToFp_sextets:
  "\<forall>b\<in>set bs. b < 256 \<Longrightarrow> b64ToFp (map (of_nat \<circ> b64u_char) (sextets bs)) = Inr (fingerprint bs)"
  by (simp add: b64ToFp_def unb64u_sextets fingerprint_def byte_hex_def [abs_def])

lemma sextets_chars:
  assumes "\<forall>b\<in>set bs. b < 256" "c \<in> set (map (of_nat \<circ> b64u_char) (sextets bs) :: jsstring)"
  shows "is_alnum (unat c) \<or> unat c = 0x2D \<or> unat c = 0x5F"
proof -
  obtain n where n: "n < 64" "c = of_nat (b64u_char n)"
    using assms(2) sextets_less [OF assms(1)] by auto
  note r = b64u_char_alphabet [OF n(1)]
  then have "b64u_char n < 65536" unfolding is_alnum_def by linarith
  then have "unat c = b64u_char n" unfolding n(2) by (rule unat_of_nat_16)
  with r show ?thesis by simp
qed

definition byte_list :: "nat list \<Rightarrow> bool" where
  "byte_list bs \<longleftrightarrow> bs \<noteq> [] \<and> (\<forall>b\<in>set bs. b < 256)"

interpretation fp: codec fpToB64 b64ToFp "\<lambda>bs. map (of_nat \<circ> b64u_char) (sextets bs)"
    "\<lambda>s bs. s = fingerprint bs" "\<lambda>s bs. s = fingerprint bs" byte_list
  by unfold_locales (auto simp: byte_list_def fpToB64_fingerprint b64ToFp_sextets simp del: map_map)

text \<open>
  C36: the fingerprint survives the link. The hexadecimal fingerprint of a nonempty byte sequence is
  turned by \<open>fpToB64\<close> into characters of the URL-safe base64 alphabet, without padding, and
  \<open>b64ToFp\<close> gives the same upper-case fingerprint back.
\<close>

theorem fingerprint_roundtrip:
  assumes "bs \<noteq> []" "\<forall>b\<in>set bs. b < 256"
  shows "\<exists>b. fpToB64 (fingerprint bs) = Inr b \<and> b64ToFp b = Inr (fingerprint bs) \<and>
    (\<forall>c\<in>set b. is_alnum (unat c) \<or> unat c = 0x2D \<or> unat c = 0x5F)"
proof -
  have bs: "byte_list bs" using assms by (simp add: byte_list_def)
  have "fpToB64 (fingerprint bs) = Inr (map (of_nat \<circ> b64u_char) (sextets bs))" by (rule fp.encodes [OF bs refl])
  moreover have "b64ToFp (map (of_nat \<circ> b64u_char) (sextets bs)) = Inr (fingerprint bs)" using fp.decodes [OF bs] by blast
  ultimately show ?thesis using sextets_chars [OF assms(2)] by blast
qed

theorem fingerprint_roundtrip_witness:
  "\<exists>b. fpToB64 (fingerprint [0x00, 0xAB, 0x7F, 0xFF]) = Inr b \<and>
    b64ToFp b = Inr (fingerprint [0x00, 0xAB, 0x7F, 0xFF]) \<and>
    (\<forall>c\<in>set b. is_alnum (unat c) \<or> unat c = 0x2D \<or> unat c = 0x5F)"
  by (rule fingerprint_roundtrip) simp_all

end
