(* ===== verification/Chat_SDP.thy ===== *)
theory Chat_SDP
  imports Chat_Link
begin

text \<open>
  \<open>packSdp\<close> and \<open>unpackSdp\<close> of \<open>examples/chat/chat.js\<close>: a data-channel description reduced to the
  fields that vary, and rebuilt from them.
\<close>

subsection \<open>Numbers and undefined in template strings\<close>

function digits :: "nat \<Rightarrow> nat list" where
  "digits n = (if n < 10 then [0x30 + n] else digits (n div 10) @ [0x30 + n mod 10])"
  by auto

termination
  by (relation "measure id") simp_all

declare digits.simps [simp del]

definition show_int :: "int \<Rightarrow> jsstring" where
  "show_int z = (if z < 0 then 0x2D # map of_nat (digits (nat (- z))) else map of_nat (digits (nat z)))"

definition show_opt :: "jsstring option \<Rightarrow> jsstring" where
  "show_opt v = (case v of None \<Rightarrow> js ''undefined'' | Some s \<Rightarrow> s)"

definition nth_opt :: "'a list \<Rightarrow> nat \<Rightarrow> 'a option" where
  "nth_opt xs i = (if i < length xs then Some (xs ! i) else None)"

subsection \<open>Matching\<close>

definition lower_ascii :: "16 word \<Rightarrow> 16 word" where
  "lower_ascii c = (if 0x41 \<le> c \<and> c \<le> 0x5A then c + 0x20 else c)"

text \<open>A literal at the start of the text, with the flag \<open>i\<close> if \<open>ci\<close>; the result is what follows.\<close>

fun lit :: "bool \<Rightarrow> jsstring \<Rightarrow> jsstring \<Rightarrow> jsstring option" where
  "lit ci [] s = Some s"
| "lit ci (p # ps) (c # s) =
     (if (if ci then lower_ascii p = lower_ascii c else p = c) then lit ci ps s else None)"
| "lit ci (p # ps) [] = None"

text \<open>A capture of one or more characters of a class.\<close>

definition span1 :: "(16 word \<Rightarrow> bool) \<Rightarrow> jsstring \<Rightarrow> (jsstring \<times> jsstring) option" where
  "span1 P s = (if takeWhile P s = [] then None else Some (takeWhile P s, dropWhile P s))"

definition nonspace :: "16 word \<Rightarrow> bool" where
  "nonspace c \<longleftrightarrow> \<not> js_space c"

definition decimal :: "16 word \<Rightarrow> bool" where
  "decimal c \<longleftrightarrow> 0x30 \<le> unat c \<and> unat c \<le> 0x39"

definition fp_char :: "16 word \<Rightarrow> bool" where
  "fp_char c \<longleftrightarrow> hex_value (unat c) \<noteq> None \<or> unat c = 0x3A"

definition capture_at :: "bool \<Rightarrow> jsstring \<Rightarrow> (16 word \<Rightarrow> bool) \<Rightarrow> jsstring \<Rightarrow> jsstring option" where
  "capture_at ci l P s = (case lit ci l s of None \<Rightarrow> None | Some r \<Rightarrow> map_option fst (span1 P r))"

fun find_match :: "(jsstring \<Rightarrow> 'a option) \<Rightarrow> jsstring \<Rightarrow> 'a option" where
  "find_match p [] = p []"
| "find_match p (c # s) = (case p (c # s) of Some r \<Rightarrow> Some r | None \<Rightarrow> find_match p s)"

text \<open>\<open>g(re)\<close>: the capture of the first match, or the empty string.\<close>

definition first_capture :: "bool \<Rightarrow> string \<Rightarrow> (16 word \<Rightarrow> bool) \<Rightarrow> jsstring \<Rightarrow> jsstring" where
  "first_capture ci l P s = (case find_match (capture_at ci (js l) P) s of None \<Rightarrow> [] | Some x \<Rightarrow> x)"

record cand_match =
  m_ip :: jsstring
  m_port :: jsstring
  m_type :: jsstring
  m_raddr :: "jsstring option"
  m_rport :: "jsstring option"

definition obind :: "'a option \<Rightarrow> ('a \<Rightarrow> 'b option) \<Rightarrow> 'b option" where
  "obind m f = (case m of None \<Rightarrow> None | Some x \<Rightarrow> f x)"

text \<open>The optional group \<open>(?: raddr (\S+) rport (\d+))?\<close>.\<close>

definition related_at :: "jsstring \<Rightarrow> ((jsstring \<times> jsstring) \<times> jsstring) option" where
  "related_at s =
     obind (lit True (js '' raddr '') s) (\<lambda>s. obind (span1 nonspace s) (\<lambda>(ra, s).
     obind (lit True (js '' rport '') s) (\<lambda>s. obind (span1 decimal s) (\<lambda>(rp, s). Some ((ra, rp), s)))))"

definition related_opt :: "jsstring \<Rightarrow> (jsstring option \<times> jsstring option) \<times> jsstring" where
  "related_opt s = (case related_at s of None \<Rightarrow> ((None, None), s)
     | Some ((ra, rp), r) \<Rightarrow> ((Some ra, Some rp), r))"

definition cand_at :: "jsstring \<Rightarrow> (cand_match \<times> jsstring) option" where
  "cand_at s =
     obind (lit True (js ''a=candidate:'') s) (\<lambda>s. obind (span1 nonspace s) (\<lambda>(_, s).
     obind (lit True (js '' '') s) (\<lambda>s. obind (span1 decimal s) (\<lambda>(_, s).
     obind (lit True (js '' udp '') s) (\<lambda>s. obind (span1 decimal s) (\<lambda>(_, s).
     obind (lit True (js '' '') s) (\<lambda>s. obind (span1 nonspace s) (\<lambda>(ip, s).
     obind (lit True (js '' '') s) (\<lambda>s. obind (span1 decimal s) (\<lambda>(port, s).
     obind (lit True (js '' typ '') s) (\<lambda>s. obind (span1 nonspace s) (\<lambda>(typ, s).
       Some (let r = related_opt s in
         (\<lparr>m_ip = ip, m_port = port, m_type = typ, m_raddr = fst (fst r), m_rport = snd (fst r)\<rparr>, snd r))))))))))))))"

lemma obind_simps [simp]: "obind None f = None" "obind (Some x) f = f x"
  by (simp_all add: obind_def)

lemma obind_eq_Some: "obind m f = Some y \<longleftrightarrow> (\<exists>x. m = Some x \<and> f x = Some y)"
  by (cases m) simp_all

lemma lit_length: "lit ci l s = Some r \<Longrightarrow> length s = length l + length r"
  by (induction ci l s rule: lit.induct) (auto split: if_splits)

lemma span1_length: "span1 P s = Some (x, r) \<Longrightarrow> length r < length s"
  by (cases s) (auto simp: span1_def le_imp_less_Suc length_dropWhile_le split: if_splits)

lemma related_length: "related_at s = Some (x, r) \<Longrightarrow> length r < length s"
  unfolding related_at_def obind_eq_Some by (auto simp: obind_eq_Some dest!: lit_length span1_length)

lemma related_opt_length: "length (snd (related_opt s)) \<le> length s"
  by (auto simp: related_opt_def split: option.splits dest!: related_length)

lemma cand_at_length: "cand_at s = Some (m, r) \<Longrightarrow> length r < length s"
  using related_opt_length unfolding cand_at_def obind_eq_Some
  by (fastforce simp: obind_eq_Some Let_def dest!: lit_length span1_length intro: le_less_trans)

text \<open>\<open>matchAll\<close>: the next search starts where the last match ended.\<close>

function match_all :: "jsstring \<Rightarrow> cand_match list" where
  "match_all s = (case cand_at s of Some (m, r) \<Rightarrow> m # match_all r
     | None \<Rightarrow> (case s of [] \<Rightarrow> [] | c # s' \<Rightarrow> match_all s'))"
  by auto

termination
  by (relation "measure length") (auto dest: cand_at_length)

declare match_all.simps [simp del]

subsection \<open>\<open>packSdp\<close>\<close>

datatype sdp_type = Offer | Answer | Pranswer | Rollback

record description =
  d_type :: sdp_type
  d_sdp :: jsstring

definition pack_candidate :: "cand_match \<Rightarrow> jsstring" where
  "pack_candidate m =
     (if m_type m = js ''host'' then join [0x2C] [m_ip m, m_port m]
      else join [0x2C] [m_ip m, m_port m, [hd (m_type m)], show_opt (m_raddr m), show_opt (m_rport m)])"

definition pack_setup :: "jsstring \<Rightarrow> jsstring" where
  "pack_setup setup = (if setup = js ''actpass'' then js ''A'' else if setup = js ''active'' then js ''a'' else js ''p'')"

definition packSdp :: "description \<Rightarrow> jsstring result" where
  "packSdp desc =
     (let s = d_sdp desc;
          cands = map pack_candidate (match_all s);
          setup = first_capture False ''a=setup:'' nonspace s
      in rbind (fpToB64 (first_capture True ''a=fingerprint:sha-256 '' fp_char s)) (\<lambda>fp.
         Inr (join [0x7E]
           [if d_type desc = Offer then js ''o'' else js ''a'',
            pack_setup setup,
            first_capture False ''a=ice-ufrag:'' nonspace s,
            first_capture False ''a=ice-pwd:'' nonspace s,
            fp,
            join [0x3B] cands])))"

subsection \<open>\<open>unpackSdp\<close>\<close>

text \<open>
  A property of the literal \<open>{ h, s, r }\<close>, which also inherits from \<open>Object.prototype\<close>: an
  inherited function is truthy and is rendered as the text of a native function.
\<close>

definition inherited :: "jsstring \<Rightarrow> jsstring option" where
  "inherited c =
     (if c = js ''constructor'' then Some (js ''function Object() { [native code] }'')
      else if c = js ''__proto__'' then Some (js ''[object Object]'')
      else if c \<in> {js ''__defineGetter__'', js ''__defineSetter__'', js ''hasOwnProperty'', js ''__lookupGetter__'',
           js ''__lookupSetter__'', js ''isPrototypeOf'', js ''propertyIsEnumerable'', js ''toString'',
           js ''valueOf'', js ''toLocaleString''}
        then Some (js ''function '' @ c @ js ''() { [native code] }'')
      else None)"

definition expand :: "jsstring option \<Rightarrow> jsstring" where
  "expand c = (case c of None \<Rightarrow> js ''host''
     | Some k \<Rightarrow> if k = js ''h'' then js ''host'' else if k = js ''s'' then js ''srflx''
         else if k = js ''r'' then js ''relay''
         else case inherited k of Some t \<Rightarrow> t | None \<Rightarrow> js ''host'')"

definition candidate_line :: "nat \<Rightarrow> jsstring \<Rightarrow> jsstring" where
  "candidate_line i c =
     (let p = split_on 0x2C c; f = (\<lambda>k. show_opt (nth_opt p k)) in
      if length p = 2
      then js ''a=candidate:'' @ show_int (int i) @ js '' 1 udp '' @ show_int (2122252543 - int i) @ js '' '' @ f 0
        @ js '' '' @ f 1 @ js '' typ host''
      else js ''a=candidate:'' @ show_int (int i) @ js '' 1 udp '' @ show_int (1686052607 - int i) @ js '' '' @ f 0
        @ js '' '' @ f 1 @ js '' typ '' @ expand (nth_opt p 2) @ js '' raddr '' @ f 3 @ js '' rport '' @ f 4)"

definition crlf :: jsstring where
  "crlf = [0x0D, 0x0A]"

definition sdp_text :: "jsstring list \<Rightarrow> jsstring" where
  "sdp_text lines = join crlf lines @ crlf"

definition sdp_lines :: "jsstring option \<Rightarrow> jsstring option \<Rightarrow> jsstring \<Rightarrow> jsstring \<Rightarrow> jsstring list \<Rightarrow> jsstring list" where
  "sdp_lines ufrag pwd fp setup cands =
     [js ''v=0'', js ''o=- 0 0 IN IP4 0.0.0.0'', js ''s=-'', js ''t=0 0'',
      js ''a=group:BUNDLE 0'', js ''a=msid-semantic: WMS'',
      js ''m=application 9 UDP/DTLS/SCTP webrtc-datachannel'', js ''c=IN IP4 0.0.0.0'',
      js ''a=ice-ufrag:'' @ show_opt ufrag, js ''a=ice-pwd:'' @ show_opt pwd,
      js ''a=fingerprint:sha-256 '' @ fp, js ''a=setup:'' @ setup, js ''a=mid:0'',
      js ''a=sctp-port:5000'', js ''a=max-message-size:262144''] @ cands"

definition unpackSdp :: "jsstring \<Rightarrow> description result" where
  "unpackSdp packed =
     (let part = nth_opt (split_on 0x7E packed);
          setup = (if part 1 = Some (js ''A'') then js ''actpass''
                   else if part 1 = Some (js ''a'') then js ''active'' else js ''passive'');
          cands = (case part 5 of None \<Rightarrow> [] | Some candStr \<Rightarrow>
                    if candStr = [] then []
                    else map (\<lambda>(i, c). candidate_line i c) (enumerate 0 (split_on 0x3B candStr)))
      in case part 4 of None \<Rightarrow> Inl TypeError
         | Some fpb \<Rightarrow> rbind (b64ToFp fpb) (\<lambda>fp.
             Inr \<lparr>d_type = (if part 0 = Some (js ''o'') then Offer else Answer),
                  d_sdp = sdp_text (sdp_lines (part 2) (part 3) fp setup cands)\<rparr>))"

end
