(* ===== verification/Chat_Stun.thy ===== *)
theory Chat_Stun
  imports Chat_SDP "HOL-Library.Multiset"
begin

text \<open>
  STUN probing of \<open>examples/chat/chat.js\<close>: \<open>probeStun\<close> as a machine driven by the events of the
  browser, the session cache, and \<open>resolveIceServers\<close>. Times are rationals in milliseconds;
  \<open>Infinity\<close> is \<open>None\<close>.
\<close>

subsection \<open>Constants\<close>

definition STUN_POOL :: "jsstring list" where
  "STUN_POOL = [
     js ''stun:stun.l.google.com:19302'',
     js ''stun:stun1.l.google.com:19302'',
     js ''stun:stun2.l.google.com:19302'',
     js ''stun:stun3.l.google.com:19302'',
     js ''stun:stun4.l.google.com:19302'',
     js ''stun:stun.cloudflare.com:3478'',
     js ''stun:global.stun.twilio.com:3478'',
     js ''stun:stun.relay.metered.ca:80'',
     js ''stun:stun.nextcloud.com:443'',
     js ''stun:stun.sipgate.net:3478'',
     js ''stun:stun.sipgate.net:10000'',
     js ''stun:stun.services.mozilla.com'']"

definition TOP_N :: nat where "TOP_N = 4"

definition CACHE_TTL_MS :: rat where "CACHE_TTL_MS = 5 * 60 * 1000"

subsection \<open>\<open>probeStun\<close>\<close>

record probe_result =
  r_url :: jsstring
  r_ok :: bool
  r_ms :: "rat option"

record ice_candidate =
  ic_type :: "jsstring option"
  ic_text :: "jsstring option"

text \<open>The test for a public candidate, shared with \<open>waitIceComplete\<close>.\<close>

definition is_srflx :: "ice_candidate \<Rightarrow> bool" where
  "is_srflx c \<longleftrightarrow> ic_type c = Some (js ''srflx'')
     \<or> contains (js ''typ srflx'') (case ic_text c of None \<Rightarrow> [] | Some t \<Rightarrow> t)"

record probe =
  pr_settled :: bool
  pr_timer :: bool
  pr_listening :: bool
  pr_closed :: bool
  pr_result :: "probe_result option"

datatype probe_event =
    ProbeTimeout
  | ProbeCandidate "ice_candidate option" rat
  | OfferFailed

definition probe_finish :: "jsstring \<Rightarrow> rat \<Rightarrow> bool \<Rightarrow> rat \<Rightarrow> probe \<Rightarrow> probe" where
  "probe_finish url t0 ok now p =
     (if pr_settled p then p
      else \<lparr>pr_settled = True, pr_timer = False, pr_listening = False, pr_closed = True,
        pr_result = (case pr_result p of Some r \<Rightarrow> Some r
          | None \<Rightarrow> Some \<lparr>r_url = url, r_ok = ok, r_ms = (if ok then Some (now - t0) else None)\<rparr>)\<rparr>)"

text \<open>
  The synchronous part: the constructor may throw, and so may creating the channel or the offer.
\<close>

definition probe_start :: "jsstring \<Rightarrow> bool \<Rightarrow> bool \<Rightarrow> rat \<Rightarrow> probe" where
  "probe_start url ctor_throws setup_throws t0 =
     (if ctor_throws
      then \<lparr>pr_settled = False, pr_timer = False, pr_listening = False, pr_closed = True,
        pr_result = Some \<lparr>r_url = url, r_ok = False, r_ms = None\<rparr>\<rparr>
      else let p = \<lparr>pr_settled = False, pr_timer = True, pr_listening = True, pr_closed = False, pr_result = None\<rparr>
        in if setup_throws then probe_finish url t0 False t0 p else p)"

text \<open>The browser fires the timer only while it is armed and candidates only while the handler is set.\<close>

fun probe_step :: "jsstring \<Rightarrow> rat \<Rightarrow> probe_event \<Rightarrow> probe \<Rightarrow> probe" where
  "probe_step url t0 ProbeTimeout p = (if pr_timer p then probe_finish url t0 False 0 p else p)"
| "probe_step url t0 (ProbeCandidate c now) p =
     (if pr_listening p
      then (case c of None \<Rightarrow> p | Some c' \<Rightarrow> if is_srflx c' then probe_finish url t0 True now p else p)
      else p)"
| "probe_step url t0 OfferFailed p = probe_finish url t0 False 0 p"

definition probeStun :: "jsstring \<Rightarrow> bool \<Rightarrow> bool \<Rightarrow> rat \<Rightarrow> probe_event list \<Rightarrow> probe" where
  "probeStun url ctor_throws setup_throws t0 evs =
     fold (probe_step url t0) evs (probe_start url ctor_throws setup_throws t0)"

text \<open>The specification: the first event that decides.\<close>

fun verdict :: "jsstring \<Rightarrow> rat \<Rightarrow> probe_event \<Rightarrow> probe_result option" where
  "verdict url t0 ProbeTimeout = Some \<lparr>r_url = url, r_ok = False, r_ms = None\<rparr>"
| "verdict url t0 (ProbeCandidate (Some c) now) =
     (if is_srflx c then Some \<lparr>r_url = url, r_ok = True, r_ms = Some (now - t0)\<rparr> else None)"
| "verdict url t0 (ProbeCandidate None now) = None"
| "verdict url t0 OfferFailed = Some \<lparr>r_url = url, r_ok = False, r_ms = None\<rparr>"

definition first_verdict :: "jsstring \<Rightarrow> rat \<Rightarrow> probe_event list \<Rightarrow> probe_result option" where
  "first_verdict url t0 = first_decision (verdict url t0)"

definition probe_pending :: "probe \<Rightarrow> bool" where
  "probe_pending p \<longleftrightarrow> p = \<lparr>pr_settled = False, pr_timer = True, pr_listening = True, pr_closed = False, pr_result = None\<rparr>"

definition probe_done :: "probe_result \<Rightarrow> probe \<Rightarrow> bool" where
  "probe_done r p \<longleftrightarrow> p = \<lparr>pr_settled = True, pr_timer = False, pr_listening = False, pr_closed = True, pr_result = Some r\<rparr>"

interpretation stun: promise "probe_step url t0" "verdict url t0" probe_pending probe_done for url t0
proof (unfold_locales, goal_cases)
  case (1 p e)
  then show ?case
    by (cases "(url, t0, e)" rule: verdict.cases) (auto simp: probe_pending_def probe_finish_def split: if_splits)
next
  case (2 p e r)
  then show ?case
    by (cases "(url, t0, e)" rule: verdict.cases)
      (auto simp: probe_pending_def probe_done_def probe_finish_def split: if_splits)
next
  case (3 r p e)
  then show ?case
    by (cases "(url, t0, e)" rule: verdict.cases) (auto simp: probe_done_def probe_finish_def)
qed

text \<open>
  C7: a probe settles exactly once, with the first event that decides. When the connection can be
  created, then after any sequence of candidates, failures and timer events either nothing has
  decided yet and the probe is untouched, or the promise holds the verdict of the first deciding
  event, the timer is cleared, the handler removed and the connection closed; a sequence with a
  timer event always decides.
\<close>

theorem probe_settles_once:
  "(case first_verdict url t0 evs of
      None \<Rightarrow> probe_pending (probeStun url False False t0 evs) \<and> ProbeTimeout \<notin> set evs
    | Some r \<Rightarrow> probe_done r (probeStun url False False t0 evs) \<and> (r_ok r \<longleftrightarrow> r_ms r \<noteq> None) \<and> r_url r = url)"
proof -
  have "probe_pending (probe_start url False False t0)" by (simp add: probe_start_def probe_pending_def)
  from stun.first_wins [OF this, of url t0 evs]
  have main: "(case first_verdict url t0 evs of None \<Rightarrow> probe_pending (probeStun url False False t0 evs)
     | Some r \<Rightarrow> probe_done r (probeStun url False False t0 evs))"
    by (simp only: probeStun_def first_verdict_def)
  have v: "verdict url t0 e = Some r \<Longrightarrow> (r_ok r \<longleftrightarrow> r_ms r \<noteq> None) \<and> r_url r = url" for e r
    by (cases "(url, t0, e)" rule: verdict.cases) (auto split: if_splits)
  have "first_verdict url t0 evs = Some r \<Longrightarrow> (r_ok r \<longleftrightarrow> r_ms r \<noteq> None) \<and> r_url r = url" for r
    by (auto simp: first_verdict_def dest!: first_decision_Some v)
  moreover have "first_verdict url t0 evs = None \<Longrightarrow> ProbeTimeout \<notin> set evs"
    by (auto simp: first_verdict_def first_decision_None)
  ultimately show ?thesis using main by (auto split: option.splits)
qed

subsection \<open>The cache\<close>

text \<open>The JSON value stored under the key; a number is a rational.\<close>

datatype json =
    JNull
  | JBool bool
  | JNum rat
  | JStr jsstring
  | JArr "json list"
  | JObj "(jsstring \<times> json) list"

fun truthy :: "json option \<Rightarrow> bool" where
  "truthy None \<longleftrightarrow> False"
| "truthy (Some JNull) \<longleftrightarrow> False"
| "truthy (Some (JBool b)) \<longleftrightarrow> b"
| "truthy (Some (JNum x)) \<longleftrightarrow> x \<noteq> 0"
| "truthy (Some (JStr s)) \<longleftrightarrow> s \<noteq> []"
| "truthy (Some (JArr _)) \<longleftrightarrow> True"
| "truthy (Some (JObj _)) \<longleftrightarrow> True"

text \<open>A property named \<open>ts\<close> or \<open>ranked\<close>: only objects can have one, the last of equal keys counts.\<close>

fun json_field :: "json \<Rightarrow> jsstring \<Rightarrow> json option" where
  "json_field (JObj kvs) k = map_of (rev kvs) k"
| "json_field _ k = None"

text \<open>
  \<open>readStunCache\<close>. The item is absent (\<open>None\<close>), a text that does not parse (\<open>Some None\<close>) or a
  JSON value; \<open>coerce\<close> is the conversion of a value that is not a number to one.
\<close>

definition readStunCache :: "(json \<Rightarrow> rat option) \<Rightarrow> rat \<Rightarrow> json option option \<Rightarrow> json list option" where
  "readStunCache coerce now item =
     (case item of None \<Rightarrow> None | Some None \<Rightarrow> None
      | Some (Some c) \<Rightarrow>
          if truthy (Some c) \<and> truthy (json_field c (js ''ts'')) then
            (case json_field c (js ''ranked'') of
               Some (JArr ranked) \<Rightarrow>
                 if ranked = [] then None
                 else (case (case json_field c (js ''ts'') of Some (JNum t) \<Rightarrow> Some t | Some v \<Rightarrow> coerce v | None \<Rightarrow> None) of
                         None \<Rightarrow> None
                       | Some t \<Rightarrow> if now - t \<le> CACHE_TTL_MS then Some ranked else None)
             | _ \<Rightarrow> None)
          else None)"

subsection \<open>\<open>resolveIceServers\<close>\<close>

definition rank_results :: "probe_result list \<Rightarrow> jsstring list" where
  "rank_results results = map r_url (sort_key (\<lambda>r. the (r_ms r)) (filter r_ok results))"

datatype stun_message =
    ProbingStatus
  | NoStunServer
  | StunReady nat nat

text \<open>
  The servers for the connection, the cached item afterwards and the messages shown. \<open>outcome\<close> is
  what \<open>probeStun\<close> resolves to, \<open>writable\<close> whether \<open>setItem\<close> succeeds, \<open>now1\<close> and \<open>now2\<close> the clock
  at the two readings.
\<close>

definition resolveIceServers ::
  "(json \<Rightarrow> rat option) \<Rightarrow> rat \<Rightarrow> rat \<Rightarrow> bool \<Rightarrow> (jsstring \<Rightarrow> probe_result) \<Rightarrow> json option option
    \<Rightarrow> json list \<times> json option option \<times> stun_message list" where
  "resolveIceServers coerce now1 now2 writable outcome item =
     (let (ranked, item', msgs) =
        (case readStunCache coerce now1 item of
           Some ranked \<Rightarrow> (ranked, item, [])
         | None \<Rightarrow>
             let results = map outcome STUN_POOL;
                 ranked = map JStr (rank_results results);
                 cache = JObj [(js ''ranked'', JArr ranked), (js ''ts'', JNum now2)]
             in (ranked, if writable then Some (Some cache) else item, [ProbingStatus]));
        top = take TOP_N ranked
      in if top = [] then (map JStr STUN_POOL, item', msgs @ [NoStunServer])
         else (top, item', msgs @ [StunReady (length top) (length STUN_POOL)]))"

lemma length_STUN_POOL [simp]: "length STUN_POOL = 12" "STUN_POOL \<noteq> []"
  by (simp_all add: STUN_POOL_def)

lemma resolve_probe:
  assumes "readStunCache coerce now1 item = None"
  shows "resolveIceServers coerce now1 now2 writable outcome item =
    (let ranked = map JStr (rank_results (map outcome STUN_POOL));
         item' = (if writable then Some (Some (JObj [(js ''ranked'', JArr ranked), (js ''ts'', JNum now2)])) else item)
     in if ranked = [] then (map JStr STUN_POOL, item', [ProbingStatus, NoStunServer])
        else (take 4 ranked, item', [ProbingStatus, StunReady (min (length ranked) 4) 12]))"
  using assms by (auto simp: resolveIceServers_def Let_def TOP_N_def)

lemma read_written:
  "t \<noteq> 0 \<Longrightarrow> readStunCache coerce now (Some (Some (JObj [(js ''ranked'', JArr ranked), (js ''ts'', JNum t)])))
    = (if ranked = [] \<or> CACHE_TTL_MS < now - t then None else Some ranked)"
  by (auto simp: readStunCache_def js_def)

lemma rank_empty: "rank_results results = [] \<longleftrightarrow> \<not> (\<exists>r\<in>set results. r_ok r)"
proof -
  have "rank_results results = [] \<longleftrightarrow> filter r_ok results = []"
    unfolding rank_results_def by (metis length_0_conv length_map length_sort)
  then show ?thesis by (simp add: filter_empty_conv)
qed

text \<open>
  C14: the healthiest servers are chosen. Without a usable cache the servers are, if some probe
  succeeded, the URLs of the first four of the reachable servers in order of their latency, equal
  latencies in pool order, and no reachable server left out is faster than one chosen; if none
  succeeded, the whole pool.
\<close>

theorem resolve_ranks_reachable:
  assumes "readStunCache coerce now1 item = None"
  shows "\<exists>chosen. mset chosen \<subseteq># mset (filter r_ok (map outcome STUN_POOL)) \<and>
    sorted (map (\<lambda>r. the (r_ms r)) chosen) \<and>
    length chosen = min 4 (length (filter r_ok (map outcome STUN_POOL))) \<and>
    (\<forall>r\<in>#mset (filter r_ok (map outcome STUN_POOL)) - mset chosen. \<forall>c\<in>set chosen. the (r_ms c) \<le> the (r_ms r)) \<and>
    (\<forall>k. filter (\<lambda>r. the (r_ms r) = k) (sort_key (\<lambda>r. the (r_ms r)) (filter r_ok (map outcome STUN_POOL)))
       = filter (\<lambda>r. the (r_ms r) = k) (filter r_ok (map outcome STUN_POOL))) \<and>
    fst (resolveIceServers coerce now1 now2 writable outcome item) =
      (if chosen = [] then map JStr STUN_POOL else map (\<lambda>r. JStr (r_url r)) chosen)"
proof -
  let ?ok = "filter r_ok (map outcome STUN_POOL)"
  let ?sorted = "sort_key (\<lambda>r. the (r_ms r)) ?ok"
  let ?chosen = "take 4 ?sorted"
  have split: "?sorted = ?chosen @ drop 4 ?sorted" by simp
  have m: "mset ?ok = mset ?chosen + mset (drop 4 ?sorted)"
    by (metis mset_append mset_sort split)
  have srt: "sorted (map (\<lambda>r. the (r_ms r)) (?chosen @ drop 4 ?sorted))"
    using sorted_sort_key [of "\<lambda>r. the (r_ms r)" ?ok] by simp
  have "\<forall>r\<in>#mset ?ok - mset ?chosen. \<forall>c\<in>set ?chosen. the (r_ms c) \<le> the (r_ms r)"
    using srt by (subst m) (auto simp only: map_append sorted_append add_diff_cancel_left' set_map set_mset_mset)
  moreover have "fst (resolveIceServers coerce now1 now2 writable outcome item) =
      (if ?chosen = [] then map JStr STUN_POOL else map (\<lambda>r. JStr (r_url r)) ?chosen)"
  proof -
    have "map JStr (rank_results (map outcome STUN_POOL)) = map (\<lambda>r. JStr (r_url r)) ?sorted"
      by (simp add: rank_results_def comp_def)
    then show ?thesis
      unfolding resolve_probe [OF assms] Let_def by (auto simp: take_map)
  qed
  moreover have "sorted (map (\<lambda>r. the (r_ms r)) ?chosen)"
    using srt by (simp only: map_append sorted_append)
  moreover have "mset ?chosen \<subseteq># mset ?ok" using m by simp
  moreover have "length ?chosen = min 4 (length ?ok)" by (simp add: min.commute)
  moreover have "\<forall>k. filter (\<lambda>r. the (r_ms r) = k) ?sorted = filter (\<lambda>r. the (r_ms r) = k) ?ok"
    using sort_key_stable [of "\<lambda>r. the (r_ms r)"] by metis
  ultimately show ?thesis by (intro exI [of _ ?chosen] conjI)
qed

theorem resolve_ranks_reachable_witness:
  "\<exists>chosen. mset chosen \<subseteq># mset (filter r_ok (map (\<lambda>u. \<lparr>r_url = u, r_ok = True, r_ms = Some 7\<rparr>) STUN_POOL)) \<and>
    sorted (map (\<lambda>r. the (r_ms r)) chosen) \<and> length chosen = 4 \<and>
    fst (resolveIceServers (\<lambda>_. None) 1000 1001 True (\<lambda>u. \<lparr>r_url = u, r_ok = True, r_ms = Some 7\<rparr>) None) =
      map (\<lambda>r. JStr (r_url r)) chosen"
proof -
  have "readStunCache (\<lambda>_. None) 1000 None = None" by (simp add: readStunCache_def)
  from resolve_ranks_reachable [OF this, of "\<lambda>u. \<lparr>r_url = u, r_ok = True, r_ms = Some 7\<rparr>" 1001 True]
  obtain chosen where "mset chosen \<subseteq># mset (filter r_ok (map (\<lambda>u. \<lparr>r_url = u, r_ok = True, r_ms = Some 7\<rparr>) STUN_POOL))"
      "sorted (map (\<lambda>r. the (r_ms r)) chosen)"
      "length chosen = min 4 (length (filter r_ok (map (\<lambda>u. \<lparr>r_url = u, r_ok = True, r_ms = Some 7\<rparr>) STUN_POOL)))"
      "fst (resolveIceServers (\<lambda>_. None) 1000 1001 True (\<lambda>u. \<lparr>r_url = u, r_ok = True, r_ms = Some 7\<rparr>) None) =
        (if chosen = [] then map JStr STUN_POOL else map (\<lambda>r. JStr (r_url r)) chosen)"
    by blast
  then show ?thesis by (intro exI [of _ chosen]) (auto simp: STUN_POOL_def)
qed


definition all_reachable :: "jsstring \<Rightarrow> probe_result" where
  "all_reachable u = \<lparr>r_url = u, r_ok = True, r_ms = Some 7\<rparr>"

definition none_reachable :: "jsstring \<Rightarrow> probe_result" where
  "none_reachable u = \<lparr>r_url = u, r_ok = False, r_ms = None\<rparr>"


text \<open>
  The number shown as healthy is the number of servers kept, at most four, not the number of
  servers that answered.
\<close>

lemma healthy_count_capped:
  "readStunCache coerce now1 item = None \<Longrightarrow>
   snd (snd (resolveIceServers coerce now1 now2 w all_reachable item))
     = [ProbingStatus, StunReady 4 12]"
proof -
  assume "readStunCache coerce now1 item = None"
  moreover have "length (rank_results (map all_reachable STUN_POOL)) = 12"
    by (simp add: rank_results_def comp_def all_reachable_def)
  moreover from this have "rank_results (map all_reachable STUN_POOL) \<noteq> []" by auto
  ultimately show ?thesis by (simp add: resolve_probe Let_def)
qed

end
