(* ===== verification/Chat_UI.thy ===== *)
theory Chat_UI
  imports Chat_Stun
begin

text \<open>
  The page of \<open>examples/chat/chat.js\<close>: status line, message log, input box and the handlers that
  connect them to the chat handle. The state is the part of the DOM and of the module variables
  the code reads or writes; \<open>sent\<close> records the calls of \<open>chat.send\<close>.
\<close>

datatype role = Offerer | Answerer

datatype who = Sys | Me | Peer

text \<open>The child of a message element: markup assigned to \<open>innerHTML\<close>, or a bubble's \<open>textContent\<close>.\<close>

datatype msg_content = Html jsstring | Bubble jsstring

record msg_div =
  class_name :: jsstring
  msg_body :: msg_content

record page =
  status_text :: jsstring
  status_ok :: bool
  msg_log :: "msg_div list"
  input_value :: jsstring
  input_disabled :: bool
  send_disabled :: bool
  chat :: bool
  sent :: "jsstring list"

definition who_class :: "who \<Rightarrow> jsstring" where
  "who_class w = (case w of Sys \<Rightarrow> js ''sys'' | Me \<Rightarrow> js ''me'' | Peer \<Rightarrow> js ''peer'')"

definition setStatus :: "jsstring \<Rightarrow> bool \<Rightarrow> page \<Rightarrow> page" where
  "setStatus t ok p = p\<lparr>status_text := t, status_ok := ok\<rparr>"

definition sys_markup :: "jsstring \<Rightarrow> jsstring" where
  "sys_markup t = js ''<span class=\"sys\">'' @ t @ js ''</span>''"

definition addMsg :: "who \<Rightarrow> jsstring \<Rightarrow> page \<Rightarrow> page" where
  "addMsg w t p = p\<lparr>msg_log := msg_log p @
     [\<lparr>class_name = js ''msg '' @ who_class w,
       msg_body = (if w = Sys then Html (sys_markup t) else Bubble t)\<rparr>]\<rparr>"

definition connected_text :: jsstring where
  "connected_text = js ''connected '' @ [0x2713] @ js '' '' @ [0x2014] @ js '' say hi''"

definition enableChat :: "page \<Rightarrow> page" where
  "enableChat p = setStatus connected_text True (p\<lparr>input_disabled := False, send_disabled := False\<rparr>)"

text \<open>The arguments \<open>startTransport\<close> passes to \<open>start_chat\<close>: own seed, remote seed, initiator.\<close>

definition start_args :: "role option \<Rightarrow> nat \<times> nat \<times> bool" where
  "start_args r = (let initiator = (r = Some Offerer)
     in (if initiator then 1 else 2, if initiator then 2 else 1, initiator))"

definition start_done :: "page \<Rightarrow> page" where
  "start_done p = enableChat (p\<lparr>chat := True\<rparr>)"

definition send_click :: "page \<Rightarrow> page" where
  "send_click p = (let t = js_trim (input_value p) in
     if t \<noteq> [] \<and> chat p then (addMsg Me t (p\<lparr>sent := sent p @ [t]\<rparr>))\<lparr>input_value := []\<rparr> else p)"

subsection \<open>Events\<close>

datatype connection_state = CNew | CConnecting | CConnected | CDisconnected | CFailed | CClosed

definition connection_name :: "connection_state \<Rightarrow> jsstring" where
  "connection_name c = (case c of CNew \<Rightarrow> js ''new'' | CConnecting \<Rightarrow> js ''connecting'' | CConnected \<Rightarrow> js ''connected''
     | CDisconnected \<Rightarrow> js ''disconnected'' | CFailed \<Rightarrow> js ''failed'' | CClosed \<Rightarrow> js ''closed'')"

definition stun_text :: "stun_message \<Rightarrow> jsstring" where
  "stun_text m = (case m of
       ProbingStatus \<Rightarrow> js ''probing STUN servers'' @ [0x2026]
     | NoStunServer \<Rightarrow> js ''no STUN server responded to the probe '' @ [0x2014] @ js '' this link may be LAN-only''
     | StunReady k n \<Rightarrow> js ''STUN ready: '' @ show_int (int k) @ js '' healthy of '' @ show_int (int n) @ js '' probed'')"

datatype ui_event =
    SendClick
  | KeyDown jsstring
  | TypeText jsstring
  | PeerText jsstring
  | StartDone
  | ConnectionState connection_state
  | StunMessage stun_message
  | OpenHint

text \<open>A disabled button does not dispatch clicks, a disabled input takes no keys.\<close>

definition click :: "page \<Rightarrow> page" where
  "click p = (if send_disabled p then p else send_click p)"

fun ui_step :: "ui_event \<Rightarrow> page \<Rightarrow> page" where
  "ui_step SendClick p = click p"
| "ui_step (KeyDown k) p = (if \<not> input_disabled p \<and> k = js ''Enter'' then click p else p)"
| "ui_step (TypeText t) p = (if input_disabled p then p else p\<lparr>input_value := t\<rparr>)"
| "ui_step (PeerText t) p = addMsg Peer t p"
| "ui_step StartDone p = start_done p"
| "ui_step (ConnectionState c) p = addMsg Sys (js ''peer connection: '' @ connection_name c) p"
| "ui_step (StunMessage m) p =
     (if m = ProbingStatus then setStatus (stun_text m) False p else addMsg Sys (stun_text m) p)"
| "ui_step OpenHint p = addMsg Sys (js ''open this exact URL in a second tab to connect'') p"

definition initial_page :: page where
  "initial_page = \<lparr>status_text = js ''loading'' @ [0x2026], status_ok = False, msg_log = [], input_value = [],
     input_disabled = True, send_disabled = True, chat = False, sent = []\<rparr>"

definition run_page :: "ui_event list \<Rightarrow> page" where
  "run_page es = fold ui_step es initial_page"

subsection \<open>Invariants\<close>

definition is_bubble :: "who \<Rightarrow> msg_div \<Rightarrow> bool" where
  "is_bubble w d \<longleftrightarrow> class_name d = js ''msg '' @ who_class w \<and> (\<exists>t. msg_body d = Bubble t)"

definition bubble_text :: "msg_div \<Rightarrow> jsstring" where
  "bubble_text d = (case msg_body d of Bubble t \<Rightarrow> t | Html h \<Rightarrow> h)"

definition bubbles :: "who \<Rightarrow> page \<Rightarrow> jsstring list" where
  "bubbles w p = map bubble_text (filter (is_bubble w) (msg_log p))"

text \<open>The fixed texts of system messages.\<close>

definition system_text :: "jsstring \<Rightarrow> bool" where
  "system_text t \<longleftrightarrow> (\<exists>c. t = js ''peer connection: '' @ connection_name c) \<or> (\<exists>m. t = stun_text m)
     \<or> t = js ''open this exact URL in a second tab to connect''"

definition ui_inv :: "page \<Rightarrow> bool" where
  "ui_inv p \<longleftrightarrow> (send_disabled p \<longleftrightarrow> \<not> chat p) \<and> (input_disabled p \<longleftrightarrow> \<not> chat p) \<and>
     bubbles Me p = sent p \<and> list_all (\<lambda>t. t \<noteq> [] \<and> js_trim t = t) (sent p) \<and>
     (\<not> chat p \<longrightarrow> sent p = []) \<and>
     (\<forall>d\<in>set (msg_log p). \<forall>h. msg_body d = Html h \<longrightarrow>
        (\<exists>t. system_text t \<and> h = sys_markup t))"

lemma who_classes [simp]: "who_class w = who_class w' \<longleftrightarrow> w = w'"
  by (cases w; cases w') (simp_all add: who_class_def js_def)

lemma bubbles_addMsg [simp]: "bubbles w (addMsg w' t p) = bubbles w p @ (if w = w' \<and> w \<noteq> Sys then [t] else [])"
  by (auto simp: bubbles_def addMsg_def is_bubble_def bubble_text_def)

lemma dropWhile_idem: "dropWhile P (dropWhile P xs) = dropWhile P xs"
  by (induction xs) simp_all

lemma dropWhile_rev_trim:
  assumes "dropWhile P xs = xs"
  shows "dropWhile P (rev (dropWhile P (rev xs))) = rev (dropWhile P (rev xs))"
proof (cases "rev (dropWhile P (rev xs))")
  case (Cons y ys)
  have "xs = rev (takeWhile P (rev xs) @ dropWhile P (rev xs))" by simp
  also have "\<dots> = (y # ys) @ rev (takeWhile P (rev xs))" using Cons by (simp only: rev_append)
  finally obtain zs where "xs = y # zs" by simp
  with assms have "\<not> P y" using dropWhile_eq_self_iff [of P xs] by auto
  with Cons show ?thesis by simp
next
  case Nil
  then show ?thesis by (simp only: dropWhile.simps)
qed

lemma js_trim_idem: "js_trim (js_trim s) = js_trim s"
  by (simp add: js_trim_def dropWhile_rev_trim dropWhile_idem)

lemma addMsg_fields [simp]:
  "send_disabled (addMsg w t p) = send_disabled p" "input_disabled (addMsg w t p) = input_disabled p"
  "chat (addMsg w t p) = chat p" "sent (addMsg w t p) = sent p"
  "msg_log (addMsg w t p) = msg_log p @ [\<lparr>class_name = js ''msg '' @ who_class w,
    msg_body = (if w = Sys then Html (sys_markup t) else Bubble t)\<rparr>]"
  by (simp_all add: addMsg_def)

lemma bubbles_update [simp]:
  "bubbles w (p\<lparr>sent := x\<rparr>) = bubbles w p" "bubbles w (p\<lparr>input_value := y\<rparr>) = bubbles w p"
  "bubbles w (p\<lparr>chat := c\<rparr>) = bubbles w p" "bubbles w (p\<lparr>input_disabled := i\<rparr>) = bubbles w p"
  "bubbles w (p\<lparr>send_disabled := d\<rparr>) = bubbles w p" "bubbles w (setStatus t ok p) = bubbles w p"
  by (simp_all add: bubbles_def setStatus_def)

lemma ui_inv_addMsg:
  "ui_inv p \<Longrightarrow> w \<noteq> Me \<Longrightarrow> (w = Sys \<Longrightarrow> system_text t) \<Longrightarrow> ui_inv (addMsg w t p)"
  unfolding ui_inv_def by auto

lemma ui_inv_click: "ui_inv p \<Longrightarrow> ui_inv (click p)"
  by (auto simp: click_def send_click_def Let_def ui_inv_def js_trim_idem)

lemma ui_inv_status: "ui_inv p \<Longrightarrow> ui_inv (setStatus t ok p)"
  by (simp add: ui_inv_def) (simp add: setStatus_def)

lemma ui_inv_step: "ui_inv p \<Longrightarrow> ui_inv (ui_step e p)"
proof (cases e)
  case StartDone
  assume "ui_inv p"
  then have "ui_inv (p\<lparr>chat := True, input_disabled := False, send_disabled := False\<rparr>)"
    by (simp add: ui_inv_def)
  then show ?thesis
    unfolding StartDone by (simp add: start_done_def enableChat_def ui_inv_status)
next
  case (TypeText t)
  assume "ui_inv p"
  then show ?thesis unfolding TypeText by (simp add: ui_inv_def)
qed (auto simp: ui_inv_click ui_inv_status system_text_def intro!: ui_inv_addMsg)

lemma ui_inv_fold: "ui_inv p \<Longrightarrow> ui_inv (fold ui_step es p)"
  by (induction es arbitrary: p) (simp_all add: ui_inv_step)

lemma ui_inv_run: "ui_inv (run_page es)"
proof -
  have "ui_inv initial_page" by (simp add: ui_inv_def initial_page_def bubbles_def)
  then show ?thesis unfolding run_page_def by (rule ui_inv_fold)
qed

lemma peer_bubbles_step:
  "bubbles Peer (ui_step e p) = bubbles Peer p @ (case e of PeerText t \<Rightarrow> [t] | _ \<Rightarrow> [])"
proof -
  show ?thesis
    by (cases e) (simp_all add: click_def send_click_def start_done_def enableChat_def Let_def)
qed

text \<open>
  C11: the chat page. After any sequence of clicks, keys, edits, peer messages, connection changes
  and the start of the transport: the controls are enabled exactly when there is a chat handle;
  nothing is sent before; the texts handed to \<open>chat.send\<close> are, in order, those shown as own
  messages, and none is empty or has surrounding white space; the peer's messages are shown in the
  order they came, as text, and the only markup in the log is made from fixed system texts.
\<close>

theorem page_invariant:
  "ui_inv (run_page es) \<and>
   bubbles Peer (run_page es) = concat (map (\<lambda>e. case e of PeerText t \<Rightarrow> [t] | _ \<Rightarrow> []) es)"
proof -
  have "bubbles Peer (fold ui_step es p)
      = bubbles Peer p @ concat (map (\<lambda>e. case e of PeerText t \<Rightarrow> [t] | _ \<Rightarrow> []) es)" for p
    by (induction es arbitrary: p) (simp_all add: peer_bubbles_step)
  then show ?thesis
    using ui_inv_run by (simp add: run_page_def) (simp add: initial_page_def bubbles_def)
qed

text \<open>
  The two ends of a pair start the transport with complementary identities. Whatever the roles,
  the two seeds of an end are 1 and 2; an offerer and an answerer pass each other's seeds swapped,
  and exactly the offerer is the initiator.
\<close>

lemma start_args_complementary:
  "(case start_args r of (my, remote, initiator) \<Rightarrow> {my, remote} = {1, 2} \<and> (initiator \<longleftrightarrow> r = Some Offerer)) \<and>
   (case start_args (Some Offerer) of (my, remote, _) \<Rightarrow>
    case start_args (Some Answerer) of (my', remote', _) \<Rightarrow> my = remote' \<and> remote = my')"
  by (auto simp: start_args_def Let_def)

end
