(* ===== verification/Chat_Signaling.thy ===== *)
theory Chat_Signaling
  imports Chat_UI "HOL-Library.List_Lexorder"
begin

text \<open>
  \<open>broadcastSignaling\<close> of \<open>examples/chat/chat.js\<close>: tabs in the same room exchange hellos, an offer,
  an answer and candidates over a \<open>BroadcastChannel\<close>. A tab's handler is asynchronous: the
  operations it awaits are queued on the connection's operations chain and their continuations
  run when they complete; \<open>becomeOfferer\<close> never waits, so the continuation of its await runs before
  anything else happens. The signaling state of the connection is the one of the WebRTC API.
\<close>

subsection \<open>Tabs and messages\<close>

datatype signaling = Stable | HaveLocalOffer | HaveRemoteOffer

text \<open>A session description: an offer or an answer, and the tab that made it.\<close>

datatype sdp_kind = KOffer | KAnswer

type_synonym desc = "sdp_kind \<times> nat"

datatype message =
    Hello jsstring
  | SdpMsg desc
  | IceMsg nat

text \<open>Operations a handler awaits.\<close>

datatype operation =
    OpCreateOffer
  | OpCreateAnswer
  | OpSetLocal desc
  | OpSetRemote desc
  | OpAddIce nat

record tab =
  is_open :: bool
  peer_id :: "jsstring option"
  tab_role :: "role option"
  signaling :: signaling
  local_desc :: "desc option"
  remote_desc :: "desc option"
  chain :: "operation list"
  rejected :: bool

definition fresh_tab :: tab where
  "fresh_tab = \<lparr>is_open = False, peer_id = None, tab_role = None, signaling = Stable, local_desc = None,
     remote_desc = None, chain = [], rejected = False\<rparr>"

record net =
  tabs :: "nat \<Rightarrow> tab"
  channel :: "nat \<Rightarrow> nat \<Rightarrow> message list"

definition empty_net :: net where
  "empty_net = \<lparr>tabs = (\<lambda>_. fresh_tab), channel = (\<lambda>_ _. [])\<rparr>"

definition set_tab :: "nat \<Rightarrow> tab \<Rightarrow> net \<Rightarrow> net" where
  "set_tab t x n = n\<lparr>tabs := (tabs n)(t := x)\<rparr>"

text \<open>\<open>bc.postMessage\<close>: every other open tab gets the message, in the order posted.\<close>

definition post :: "nat \<Rightarrow> message \<Rightarrow> net \<Rightarrow> net" where
  "post s m n = n\<lparr>channel := (\<lambda>s' r. if s' = s \<and> r \<noteq> s \<and> is_open (tabs n r) then channel n s r @ [m] else channel n s' r)\<rparr>"

subsection \<open>The connection\<close>

text \<open>\<open>setLocalDescription\<close> and \<open>setRemoteDescription\<close>; \<open>None\<close> is a rejected promise.\<close>

fun set_local :: "desc \<Rightarrow> tab \<Rightarrow> tab option" where
  "set_local (KOffer, s) x =
     (if signaling x = HaveRemoteOffer then None
      else Some (x\<lparr>signaling := HaveLocalOffer, local_desc := Some (KOffer, s)\<rparr>))"
| "set_local (KAnswer, s) x =
     (if signaling x = HaveRemoteOffer then Some (x\<lparr>signaling := Stable, local_desc := Some (KAnswer, s)\<rparr>) else None)"

fun set_remote :: "desc \<Rightarrow> tab \<Rightarrow> tab option" where
  "set_remote (KOffer, s) x =
     Some (x\<lparr>signaling := HaveRemoteOffer, remote_desc := Some (KOffer, s),
       local_desc := (if signaling x = HaveLocalOffer then None else local_desc x)\<rparr>)"
| "set_remote (KAnswer, s) x =
     (if signaling x = HaveLocalOffer then Some (x\<lparr>signaling := Stable, remote_desc := Some (KAnswer, s)\<rparr>) else None)"

definition await :: "operation \<Rightarrow> tab \<Rightarrow> tab" where
  "await op x = x\<lparr>chain := chain x @ [op]\<rparr>"

subsection \<open>The handlers\<close>

text \<open>Loading the page: the channel is opened, the handler set and the first hello posted.\<close>

definition open_tab :: "(nat \<Rightarrow> jsstring) \<Rightarrow> nat \<Rightarrow> net \<Rightarrow> net" where
  "open_tab ids t n = post t (Hello (ids t)) (set_tab t (fresh_tab\<lparr>is_open := True\<rparr>) n)"

fun on_message :: "(nat \<Rightarrow> jsstring) \<Rightarrow> nat \<Rightarrow> message \<Rightarrow> net \<Rightarrow> net" where
  "on_message ids t (Hello i) n =
     (let x = tabs n t in
      if peer_id x \<noteq> None then n
      else post t (Hello (ids t))
        (set_tab t (if ids t > i then await OpCreateOffer (x\<lparr>peer_id := Some i, tab_role := Some Offerer\<rparr>)
                    else x\<lparr>peer_id := Some i, tab_role := Some Answerer\<rparr>) n))"
| "on_message ids t (SdpMsg d) n = set_tab t (await (OpSetRemote d) (tabs n t)) n"
| "on_message ids t (IceMsg k) n = set_tab t (await (OpAddIce k) (tabs n t)) n"

text \<open>The first operation of the chain completes and the handler that awaited it goes on.\<close>

definition complete :: "nat \<Rightarrow> operation \<Rightarrow> net \<Rightarrow> net" where
  "complete t op n =
     (let x = (tabs n t)\<lparr>chain := tl (chain (tabs n t))\<rparr> in
      case op of
        OpCreateOffer \<Rightarrow> set_tab t (await (OpSetLocal (KOffer, t)) x) n
      | OpCreateAnswer \<Rightarrow>
          set_tab t (if signaling x = HaveRemoteOffer then await (OpSetLocal (KAnswer, t)) x else x\<lparr>rejected := True\<rparr>) n
      | OpSetLocal d \<Rightarrow>
          (case set_local d x of
             None \<Rightarrow> set_tab t (x\<lparr>rejected := True\<rparr>) n
           | Some y \<Rightarrow> post t (SdpMsg d) (set_tab t y n))
      | OpSetRemote d \<Rightarrow>
          (case set_remote d x of
             None \<Rightarrow> set_tab t (x\<lparr>rejected := True\<rparr>) n
           | Some y \<Rightarrow> set_tab t (if fst d = KOffer then await OpCreateAnswer y else y) n)
      | OpAddIce k \<Rightarrow> set_tab t x n)"

subsection \<open>Runs\<close>

text \<open>The channel hands over the oldest message.\<close>

definition pop :: "nat \<Rightarrow> nat \<Rightarrow> net \<Rightarrow> net" where
  "pop s r n = n\<lparr>channel := (channel n)(s := (channel n s)(r := tl (channel n s r)))\<rparr>"

datatype action =
    Open nat
  | Deliver nat nat
  | Complete nat
  | Candidate nat

fun act :: "(nat \<Rightarrow> jsstring) \<Rightarrow> action \<Rightarrow> net \<Rightarrow> net option" where
  "act ids (Open t) n = (if is_open (tabs n t) then None else Some (open_tab ids t n))"
| "act ids (Deliver s r) n =
     (case channel n s r of [] \<Rightarrow> None
      | m # _ \<Rightarrow> Some (on_message ids r m (pop s r n)))"
| "act ids (Complete t) n = (case chain (tabs n t) of [] \<Rightarrow> None | op # _ \<Rightarrow> Some (complete t op n))"
| "act ids (Candidate t) n =
     (if local_desc (tabs n t) = None then None else Some (post t (IceMsg t) n))"

fun acts :: "(nat \<Rightarrow> jsstring) \<Rightarrow> action list \<Rightarrow> net \<Rightarrow> net option" where
  "acts ids [] n = Some n"
| "acts ids (a # as) n = (case act ids a n of None \<Rightarrow> None | Some n' \<Rightarrow> acts ids as n')"

inductive reachable :: "(nat \<Rightarrow> jsstring) \<Rightarrow> nat set \<Rightarrow> net \<Rightarrow> bool" for ids T where
  start: "reachable ids T empty_net"
| step: "reachable ids T n \<Longrightarrow> act ids a n = Some n' \<Longrightarrow> (\<And>t. a = Open t \<Longrightarrow> t \<in> T) \<Longrightarrow> reachable ids T n'"

subsection \<open>The stages of a pairing\<close>

text \<open>
  The abstract protocol between the tab with the greater identifier, \<open>u\<close>, and the other, \<open>v\<close>:
  one offer, one answer. Candidates travel beside it.
\<close>

datatype stage = Waiting | OfferWanted | OfferMade | OfferSent | OfferReceived | RemoteSet | AnswerMade
  | AnswerSent | AnswerReceived | Done

fun not_ice :: "message \<Rightarrow> bool" where
  "not_ice (IceMsg _) \<longleftrightarrow> False" | "not_ice _ \<longleftrightarrow> True"

fun not_ice_op :: "operation \<Rightarrow> bool" where
  "not_ice_op (OpAddIce _) \<longleftrightarrow> False" | "not_ice_op _ \<longleftrightarrow> True"

definition mail :: "net \<Rightarrow> nat \<Rightarrow> nat \<Rightarrow> message list" where
  "mail n s r = filter not_ice (channel n s r)"

definition work :: "net \<Rightarrow> nat \<Rightarrow> operation list" where
  "work n t = filter not_ice_op (chain (tabs n t))"

fun offerer_work :: "nat \<Rightarrow> nat \<Rightarrow> stage \<Rightarrow> operation list" where
  "offerer_work u v OfferWanted = [OpCreateOffer]"
| "offerer_work u v OfferMade = [OpSetLocal (KOffer, u)]"
| "offerer_work u v AnswerReceived = [OpSetRemote (KAnswer, v)]"
| "offerer_work u v _ = []"

fun answerer_work :: "nat \<Rightarrow> nat \<Rightarrow> stage \<Rightarrow> operation list" where
  "answerer_work u v OfferReceived = [OpSetRemote (KOffer, u)]"
| "answerer_work u v RemoteSet = [OpCreateAnswer]"
| "answerer_work u v AnswerMade = [OpSetLocal (KAnswer, v)]"
| "answerer_work u v _ = []"

text \<open>What the offerer and the answerer look like in each stage.\<close>

definition offerer_tab :: "(nat \<Rightarrow> jsstring) \<Rightarrow> nat \<Rightarrow> nat \<Rightarrow> stage \<Rightarrow> tab \<Rightarrow> bool" where
  "offerer_tab ids u v g x \<longleftrightarrow> \<not> rejected x \<and>
     peer_id x = (if g = Waiting then None else Some (ids v)) \<and>
     tab_role x = (if g = Waiting then None else Some Offerer) \<and>
     signaling x = (if g \<in> {Waiting, OfferWanted, OfferMade, Done} then Stable else HaveLocalOffer) \<and>
     local_desc x = (if g \<in> {Waiting, OfferWanted, OfferMade} then None else Some (KOffer, u)) \<and>
     remote_desc x = (if g = Done then Some (KAnswer, v) else None)"

definition answerer_tab :: "(nat \<Rightarrow> jsstring) \<Rightarrow> nat \<Rightarrow> nat \<Rightarrow> stage \<Rightarrow> tab \<Rightarrow> bool" where
  "answerer_tab ids u v g x \<longleftrightarrow> \<not> rejected x \<and>
     (peer_id x = None \<and> tab_role x = None \<and> g \<in> {Waiting, OfferWanted, OfferMade, OfferSent} \<or>
      peer_id x = Some (ids u) \<and> tab_role x = Some Answerer) \<and>
     signaling x = (if g \<in> {RemoteSet, AnswerMade} then HaveRemoteOffer else Stable) \<and>
     local_desc x = (if g \<in> {AnswerSent, AnswerReceived, Done} then Some (KAnswer, v) else None) \<and>
     remote_desc x = (if g \<in> {Waiting, OfferWanted, OfferMade, OfferSent, OfferReceived} then None else Some (KOffer, u))"

definition both_open :: "net \<Rightarrow> nat \<Rightarrow> nat \<Rightarrow> bool" where
  "both_open n u v \<longleftrightarrow> is_open (tabs n u) \<and> is_open (tabs n v)"

text \<open>No other tab is open and no other channel is used.\<close>

definition pair_net :: "nat \<Rightarrow> nat \<Rightarrow> net \<Rightarrow> bool" where
  "pair_net u v n \<longleftrightarrow> (\<forall>s r. channel n s r \<noteq> [] \<longrightarrow> s = u \<and> r = v \<or> s = v \<and> r = u) \<and>
     (\<forall>t. t \<noteq> u \<and> t \<noteq> v \<longrightarrow> tabs n t = fresh_tab)"

definition pair_stage :: "(nat \<Rightarrow> jsstring) \<Rightarrow> nat \<Rightarrow> nat \<Rightarrow> stage \<Rightarrow> nat \<Rightarrow> nat \<Rightarrow> net \<Rightarrow> bool" where
  "pair_stage ids u v g k j n \<longleftrightarrow>
     offerer_tab ids u v g (tabs n u) \<and> answerer_tab ids u v g (tabs n v) \<and>
     work n u = offerer_work u v g \<and> work n v = answerer_work u v g \<and>
     mail n u v = replicate k (Hello (ids u)) @ (if g = OfferSent then [SdpMsg (KOffer, u)] else []) \<and>
     mail n v u = replicate j (Hello (ids v)) @ (if g = AnswerSent then [SdpMsg (KAnswer, v)] else []) \<and>
     pair_net u v n \<and>
     (\<not> is_open (tabs n u) \<longrightarrow> tabs n u = fresh_tab) \<and> (\<not> is_open (tabs n v) \<longrightarrow> tabs n v = fresh_tab) \<and>
     (\<not> both_open n u v \<longrightarrow> channel n u v = [] \<and> channel n v u = [] \<and> g = Waiting \<and> peer_id (tabs n v) = None) \<and>
     (both_open n u v \<longrightarrow>
        (peer_id (tabs n v) = None \<longrightarrow> 0 < k \<or> g = Waiting \<and> 0 < j) \<and>
        (g = Waiting \<longrightarrow> 0 < j \<or> peer_id (tabs n v) = None \<and> 0 < k))"

definition pair_inv :: "(nat \<Rightarrow> jsstring) \<Rightarrow> nat \<Rightarrow> nat \<Rightarrow> net \<Rightarrow> bool" where
  "pair_inv ids u v n \<longleftrightarrow> (\<exists>g k j. pair_stage ids u v g k j n)"

subsection \<open>What the steps do to mail and work\<close>

lemma net_simps [simp]:
  "tabs (post s m n) = tabs n" "tabs (set_tab t x n) = (tabs n)(t := x)" "tabs (pop s r n) = tabs n"
  "channel (set_tab t x n) = channel n"
  by (simp_all add: post_def set_tab_def pop_def)

lemma channel_post: "channel (post s m n) s' r =
    (if s' = s \<and> r \<noteq> s \<and> is_open (tabs n r) then channel n s r @ [m] else channel n s' r)"
  by (simp add: post_def)

lemma channel_pop: "channel (pop s r n) s' r' = (if s' = s \<and> r' = r then tl (channel n s r) else channel n s' r')"
  by (simp add: pop_def)

lemma mail_simps [simp]:
  "mail (post s m n) s' r = (if s' = s \<and> r \<noteq> s \<and> is_open (tabs n r) \<and> not_ice m then mail n s r @ [m] else mail n s' r)"
  "mail (set_tab t x n) s r = mail n s r"
  by (simp_all add: mail_def channel_post)

lemma mail_pop: "channel n s r = m # ms \<Longrightarrow>
    mail (pop s r n) s' r' = (if s' = s \<and> r' = r \<and> not_ice m then tl (mail n s r) else mail n s' r')"
  by (simp add: mail_def channel_pop)

lemma work_simps [simp]:
  "work (post s m n) t = work n t" "work (pop s r n) t = work n t"
  "work (set_tab t' x n) t = (if t = t' then filter not_ice_op (chain x) else work n t)"
  by (simp_all add: work_def)

lemma fresh_tab_simps [simp]:
  "is_open fresh_tab = False" "peer_id fresh_tab = None" "tab_role fresh_tab = None" "signaling fresh_tab = Stable"
  "local_desc fresh_tab = None" "remote_desc fresh_tab = None" "chain fresh_tab = []" "rejected fresh_tab = False"
  by (simp_all add: fresh_tab_def)

lemma await_simps [simp]:
  "chain (await op x) = chain x @ [op]" "is_open (await op x) = is_open x" "peer_id (await op x) = peer_id x"
  "tab_role (await op x) = tab_role x" "signaling (await op x) = signaling x" "local_desc (await op x) = local_desc x"
  "remote_desc (await op x) = remote_desc x" "rejected (await op x) = rejected x"
  by (simp_all add: await_def)

lemma pair_net_set_tab [intro]: "pair_net u v n \<Longrightarrow> t = u \<or> t = v \<Longrightarrow> pair_net u v (set_tab t x n)"
  by (auto simp: pair_net_def)

lemma pair_net_post [intro]:
  assumes "pair_net u v n" "s = u \<or> s = v"
  shows "pair_net u v (post s m n)"
proof -
  have "is_open (tabs n r) \<Longrightarrow> r = u \<or> r = v" for r
    using assms(1) fresh_tab_simps(1) unfolding pair_net_def by metis
  then show ?thesis using assms by (auto simp: pair_net_def channel_post)
qed

lemma pop_nonempty: "channel (pop s r n) s' r' \<noteq> [] \<Longrightarrow> channel n s' r' \<noteq> []"
  by (cases "channel n s r") (auto simp: channel_pop split: if_splits)

lemma pair_net_pop [intro]: "pair_net u v n \<Longrightarrow> pair_net u v (pop s r n)"
  unfolding pair_net_def net_simps by (meson pop_nonempty)

lemma pair_inv_empty: "u \<noteq> v \<Longrightarrow> pair_inv ids u v empty_net"
  unfolding pair_inv_def
  by (intro exI [of _ Waiting] exI [of _ 0])
     (simp add: pair_stage_def pair_net_def offerer_tab_def answerer_tab_def work_def mail_def both_open_def empty_net_def)

lemma pair_channel: "pair_stage ids u v g k j n \<Longrightarrow> channel n s r \<noteq> [] \<Longrightarrow>
    both_open n u v \<and> (s = u \<and> r = v \<or> s = v \<and> r = u)"
  unfolding pair_stage_def pair_net_def by metis

lemma pair_tabs: "pair_stage ids u v g k j n \<Longrightarrow> tabs n t \<noteq> fresh_tab \<Longrightarrow> (t = u \<or> t = v) \<and> is_open (tabs n t)"
  unfolding pair_stage_def pair_net_def by metis

lemma pair_invI: "pair_stage ids u v g k j n \<Longrightarrow> pair_inv ids u v n"
  by (auto simp: pair_inv_def)

text \<open>A step after which both tabs are open keeps the invariant when the parts below hold.\<close>

lemma pair_stageI:
  assumes "pair_net u v n" "is_open (tabs n u)" "is_open (tabs n v)"
    "offerer_tab ids u v g (tabs n u)" "answerer_tab ids u v g (tabs n v)"
    "work n u = offerer_work u v g" "work n v = answerer_work u v g"
    "mail n u v = replicate k (Hello (ids u)) @ (if g = OfferSent then [SdpMsg (KOffer, u)] else [])"
    "mail n v u = replicate j (Hello (ids v)) @ (if g = AnswerSent then [SdpMsg (KAnswer, v)] else [])"
    "peer_id (tabs n v) = None \<Longrightarrow> 0 < k \<or> g = Waiting \<and> 0 < j"
    "g = Waiting \<Longrightarrow> 0 < j \<or> peer_id (tabs n v) = None \<and> 0 < k"
  shows "pair_stage ids u v g k j n"
  using assms unfolding pair_stage_def both_open_def by simp

lemma pair_stageD:
  assumes "pair_stage ids u v g k j n"
  shows "pair_net u v n" "offerer_tab ids u v g (tabs n u)" "answerer_tab ids u v g (tabs n v)"
    "work n u = offerer_work u v g" "work n v = answerer_work u v g"
    "mail n u v = replicate k (Hello (ids u)) @ (if g = OfferSent then [SdpMsg (KOffer, u)] else [])"
    "mail n v u = replicate j (Hello (ids v)) @ (if g = AnswerSent then [SdpMsg (KAnswer, v)] else [])"
    "\<not> both_open n u v \<Longrightarrow> g = Waiting" "\<not> both_open n u v \<Longrightarrow> peer_id (tabs n v) = None"
  using assms unfolding pair_stage_def both_open_def by auto

text \<open>What holds besides when both tabs are open.\<close>

lemma pair_stage_open:
  assumes "pair_stage ids u v g k j n" "both_open n u v"
  shows "is_open (tabs n u)" "is_open (tabs n v)" "peer_id (tabs n v) = None \<Longrightarrow> 0 < k \<or> g = Waiting \<and> 0 < j"
    "g = Waiting \<Longrightarrow> 0 < j \<or> peer_id (tabs n v) = None \<and> 0 < k"
  using assms unfolding pair_stage_def both_open_def by auto

lemma inv_open:
  assumes "pair_inv ids u v n" "act ids (Open t) n = Some n'" "t \<in> {u, v}" "u \<noteq> v"
  shows "pair_inv ids u v n'"
proof -
  obtain g k j where inv: "pair_stage ids u v g k j n" using assms(1) by (auto simp: pair_inv_def)
  have closed: "\<not> is_open (tabs n t)" and n': "n' = open_tab ids t n"
    using assms(2) by (auto split: if_splits)
  then have nb: "\<not> both_open n u v" using assms(3) by (auto simp: both_open_def)
  then have ch: "channel n s r = []" for s r using pair_channel [OF inv] by blast
  have g: "g = Waiting" and pv: "peer_id (tabs n v) = None" using pair_stageD [OF inv] nb by blast+
  have kj: "k = 0" "j = 0" using pair_stageD(6,7) [OF inv] ch g by (simp_all add: mail_def)
  have cl: "\<And>t'. \<not> is_open (tabs n t') \<Longrightarrow> tabs n t' = fresh_tab"
    using pair_tabs [OF inv] by blast
  have fresh: "tabs n t = fresh_tab" using cl closed by blast
  have net: "pair_net u v n'"
    using pair_stageD(1) [OF inv] assms(3) unfolding n' open_tab_def by blast
  have "pair_stage ids u v Waiting (if t = u \<and> is_open (tabs n v) then 1 else 0)
      (if t = v \<and> is_open (tabs n u) then 1 else 0) n'"
    using pair_stageD(2-7) [OF inv] g pv kj nb ch assms(3,4) fresh cl net
    unfolding n' open_tab_def
    by (auto simp: pair_stage_def offerer_tab_def answerer_tab_def both_open_def work_def channel_post mail_def)
  then show ?thesis by (rule pair_invI)
qed

lemma inv_candidate:
  assumes "pair_inv ids u v n" "act ids (Candidate t) n = Some n'" "u \<noteq> v"
  shows "pair_inv ids u v n'"
proof -
  obtain g k j where inv: "pair_stage ids u v g k j n" using assms(1) by (auto simp: pair_inv_def)
  note d = pair_stageD [OF inv]
  have n': "n' = post t (IceMsg t) n" and desc: "local_desc (tabs n t) \<noteq> None"
    using assms(2) by (auto split: if_splits)
  have t: "t = u \<or> t = v" using pair_tabs [OF inv, of t] desc by fastforce
  have g: "g \<noteq> Waiting"
    using desc t d(2,3) by (auto simp: offerer_tab_def answerer_tab_def split: if_splits)
  then have bo: "both_open n u v" using d(8) by blast
  have "pair_net u v n'" using d(1) t unfolding n' by blast
  then have "pair_stage ids u v g k j n'"
    using d(2-7) pair_stage_open [OF inv bo] by (intro pair_stageI) (simp_all add: n')
  then show ?thesis by (rule pair_invI)
qed

subsection \<open>Deliveries\<close>

lemma inv_ice:
  assumes inv: "pair_stage ids u v g k j n" and ch: "channel n s r = IceMsg c # ms" and ne: "u \<noteq> v"
  shows "pair_stage ids u v g k j (on_message ids r (IceMsg c) (pop s r n))"
proof -
  have bo: "both_open n u v" and r: "r = u \<or> r = v" using pair_channel [OF inv, of s r] ch by auto
  note d = pair_stageD [OF inv]
  have net: "pair_net u v (on_message ids r (IceMsg c) (pop s r n))" using d(1) r by auto
  have w: "work n r = filter not_ice_op (chain (tabs n r))" by (simp add: work_def)
  have mp: "mail (pop s r n) x y = mail n x y" for x y using mail_pop [OF ch] by simp
  from r show ?thesis
  proof
    assume "r = u"
    then show ?thesis
      using d(2-7) pair_stage_open [OF inv bo] net ne w mp
      by (intro pair_stageI) (auto simp: offerer_tab_def)
  next
    assume "r = v"
    then show ?thesis
      using d(2-7) pair_stage_open [OF inv bo] net ne w mp
      by (intro pair_stageI) (auto simp: answerer_tab_def)
  qed
qed

lemma inv_hello_v:
  assumes inv: "pair_stage ids u v g k j n" and ch: "channel n u v = Hello i # ms" and ne: "u \<noteq> v" "ids u > ids v"
  shows "pair_inv ids u v (on_message ids v (Hello i) (pop u v n))"
proof -
  have bo: "both_open n u v" using pair_channel [OF inv, of u v] ch by auto
  note d = pair_stageD [OF inv]
  have "mail n u v = Hello i # filter not_ice ms" by (simp add: mail_def ch)
  then obtain k' where k: "k = Suc k'" and i: "i = ids u" using d(6) by (cases k) (auto split: if_splits)
  have w: "work n v = filter not_ice_op (chain (tabs n v))" by (simp add: work_def)
  have net: "pair_net u v (on_message ids v (Hello i) (pop u v n))" using d(1) by (auto simp: Let_def)
  have less: "\<not> ids u < ids v" using ne(2) by simp
  show ?thesis
  proof (cases "peer_id (tabs n v) = None")
    case True
    have "pair_stage ids u v g k' (Suc j) (on_message ids v (Hello i) (pop u v n))"
      using d(2-7) pair_stage_open [OF inv bo] net ne less True k i w
      by (intro pair_stageI) (auto simp: Let_def mail_pop [OF ch] answerer_tab_def replicate_append_same)
    then show ?thesis by (rule pair_invI)
  next
    case False
    have "pair_stage ids u v g k' j (on_message ids v (Hello i) (pop u v n))"
      using d(2-7) pair_stage_open [OF inv bo] net ne False k i
      by (intro pair_stageI) (auto simp: Let_def mail_pop [OF ch])
    then show ?thesis by (rule pair_invI)
  qed
qed

lemma inv_hello_u:
  assumes inv: "pair_stage ids u v g k j n" and ch: "channel n v u = Hello i # ms" and ne: "u \<noteq> v" "ids u > ids v"
  shows "pair_inv ids u v (on_message ids u (Hello i) (pop v u n))"
proof -
  have bo: "both_open n u v" using pair_channel [OF inv, of v u] ch by auto
  note d = pair_stageD [OF inv]
  have "mail n v u = Hello i # filter not_ice ms" by (simp add: mail_def ch)
  then obtain j' where j: "j = Suc j'" and i: "i = ids v" using d(7) by (cases j) (auto split: if_splits)
  have w: "work n u = filter not_ice_op (chain (tabs n u))" by (simp add: work_def)
  have net: "pair_net u v (on_message ids u (Hello i) (pop v u n))" using d(1) by (auto simp: Let_def)
  show ?thesis
  proof (cases "g = Waiting")
    case True
    have "pair_stage ids u v OfferWanted (Suc k) j' (on_message ids u (Hello i) (pop v u n))"
      using d(2-7) pair_stage_open [OF inv bo] net ne True j i w
      by (intro pair_stageI) (auto simp: Let_def mail_pop [OF ch] offerer_tab_def answerer_tab_def replicate_append_same)
    then show ?thesis by (rule pair_invI)
  next
    case False
    have "pair_stage ids u v g k j' (on_message ids u (Hello i) (pop v u n))"
      using d(2-7) pair_stage_open [OF inv bo] net ne False j i
      by (intro pair_stageI) (auto simp: Let_def mail_pop [OF ch] offerer_tab_def)
    then show ?thesis by (rule pair_invI)
  qed
qed

lemma inv_sdp_v:
  assumes inv: "pair_stage ids u v g k j n" and ch: "channel n u v = SdpMsg c # ms" and ne: "u \<noteq> v"
  shows "pair_inv ids u v (on_message ids v (SdpMsg c) (pop u v n))"
proof -
  have bo: "both_open n u v" using pair_channel [OF inv, of u v] ch by auto
  note d = pair_stageD [OF inv]
  have "mail n u v = SdpMsg c # filter not_ice ms" by (simp add: mail_def ch)
  then have k: "k = 0" and g: "g = OfferSent" "c = (KOffer, u)" using d(6) by (cases k; auto split: if_splits)+
  have net: "pair_net u v (on_message ids v (SdpMsg c) (pop u v n))" using d(1) by auto
  have w: "work n v = filter not_ice_op (chain (tabs n v))" by (simp add: work_def)
  have "pair_stage ids u v OfferReceived 0 j (on_message ids v (SdpMsg c) (pop u v n))"
    using d(2-7) pair_stage_open [OF inv bo] net ne k g w
    by (intro pair_stageI) (auto simp: Let_def mail_pop [OF ch] offerer_tab_def answerer_tab_def)
  then show ?thesis by (rule pair_invI)
qed

lemma inv_sdp_u:
  assumes inv: "pair_stage ids u v g k j n" and ch: "channel n v u = SdpMsg c # ms" and ne: "u \<noteq> v"
  shows "pair_inv ids u v (on_message ids u (SdpMsg c) (pop v u n))"
proof -
  have bo: "both_open n u v" using pair_channel [OF inv, of v u] ch by auto
  note d = pair_stageD [OF inv]
  have "mail n v u = SdpMsg c # filter not_ice ms" by (simp add: mail_def ch)
  then have k: "j = 0" and g: "g = AnswerSent" "c = (KAnswer, v)" using d(7) by (cases j; auto split: if_splits)+
  have net: "pair_net u v (on_message ids u (SdpMsg c) (pop v u n))" using d(1) by auto
  have w: "work n u = filter not_ice_op (chain (tabs n u))" by (simp add: work_def)
  have "pair_stage ids u v AnswerReceived k 0 (on_message ids u (SdpMsg c) (pop v u n))"
    using d(2-7) pair_stage_open [OF inv bo] net ne k g w
    by (intro pair_stageI) (auto simp: Let_def mail_pop [OF ch] offerer_tab_def answerer_tab_def)
  then show ?thesis by (rule pair_invI)
qed

lemma inv_deliver:
  assumes "pair_inv ids u v n" "act ids (Deliver s r) n = Some n'" "u \<noteq> v" "ids u > ids v"
  shows "pair_inv ids u v n'"
proof -
  obtain g k j where inv: "pair_stage ids u v g k j n" using assms(1) by (auto simp: pair_inv_def)
  obtain m ms where ch: "channel n s r = m # ms" and n': "n' = on_message ids r m (pop s r n)"
    using assms(2) by (auto split: list.splits)
  have sr: "s = u \<and> r = v \<or> s = v \<and> r = u" using pair_channel [OF inv, of s r] ch by simp
  show ?thesis
  proof (cases m)
    case (Hello i)
    then show ?thesis using inv_hello_u [OF inv] inv_hello_v [OF inv] sr ch n' assms(3,4) by metis
  next
    case (SdpMsg c)
    then show ?thesis using inv_sdp_u [OF inv] inv_sdp_v [OF inv] sr ch n' assms(3) by metis
  next
    case (IceMsg c)
    have "pair_stage ids u v g k j n'"
      using inv_ice [OF inv _ assms(3), of s r c ms] ch n' IceMsg by simp
    then show ?thesis by (rule pair_invI)
  qed
qed

subsection \<open>Completions\<close>

lemma inv_complete_ice:
  assumes inv: "pair_stage ids u v g k j n" and ch: "chain (tabs n t) = OpAddIce c # ops" and ne: "u \<noteq> v"
  shows "pair_stage ids u v g k j (complete t (OpAddIce c) n)"
proof -
  have t: "t = u \<or> t = v" "is_open (tabs n t)" using pair_tabs [OF inv, of t] ch by force+
  have w: "work n t = filter not_ice_op ops" by (simp add: work_def ch)
  have net: "pair_net u v (complete t (OpAddIce c) n)"
    using pair_stageD(1) [OF inv] t unfolding complete_def Let_def by auto
  have fields: "tabs (complete t (OpAddIce c) n) = (tabs n)(t := (tabs n t)\<lparr>chain := ops\<rparr>)"
    "mail (complete t (OpAddIce c) n) = mail n" "channel (complete t (OpAddIce c) n) = channel n"
    "work (complete t (OpAddIce c) n) = work n"
    using w by (auto simp: complete_def Let_def ch fun_eq_iff)
  from t(1) show ?thesis
  proof
    assume "t = u"
    then show ?thesis using inv net ne t(2) unfolding pair_stage_def both_open_def fields
      by (simp add: offerer_tab_def)
  next
    assume "t = v"
    then show ?thesis using inv net ne t(2) unfolding pair_stage_def both_open_def fields
      by (simp add: answerer_tab_def)
  qed
qed

lemma pair_net_complete: "pair_net u v n \<Longrightarrow> t = u \<or> t = v \<Longrightarrow> pair_net u v (complete t op n)"
  by (cases op) (auto simp: complete_def Let_def split: option.splits)

text \<open>The stage after the first operation that is not about candidates completes.\<close>

fun next_stage :: "stage \<Rightarrow> stage" where
  "next_stage OfferWanted = OfferMade"
| "next_stage OfferMade = OfferSent"
| "next_stage OfferReceived = RemoteSet"
| "next_stage RemoteSet = AnswerMade"
| "next_stage AnswerMade = AnswerSent"
| "next_stage AnswerReceived = Done"
| "next_stage g = g"

lemma inv_complete_work:
  assumes inv: "pair_stage ids u v g k j n" and ch: "chain (tabs n t) = op # ops" and ni: "not_ice_op op" and ne: "u \<noteq> v"
  shows "pair_stage ids u v (next_stage g) k j (complete t op n)"
proof -
  note d = pair_stageD [OF inv]
  have t: "t = u \<or> t = v" using pair_tabs [OF inv, of t] ch by force
  have w: "work n t = op # filter not_ice_op ops" using ni by (simp add: work_def ch)
  then have "g \<noteq> Waiting" using d(4,5) t by auto
  then have bo: "both_open n u v" using d(8) by blast
  have net: "pair_net u v (complete t op n)" using pair_net_complete d(1) t by blast
  note facts = d(2-7) pair_stage_open [OF inv bo] net w t ne
  note defs = complete_def Let_def offerer_tab_def answerer_tab_def ch
  show ?thesis
  proof (cases g)
    case OfferWanted
    then show ?thesis using facts by (intro pair_stageI) (auto simp: defs)
  next
    case OfferMade
    then show ?thesis using facts by (intro pair_stageI) (auto simp: defs)
  next
    case OfferReceived
    then show ?thesis using facts by (intro pair_stageI) (auto simp: defs)
  next
    case RemoteSet
    then show ?thesis using facts by (intro pair_stageI) (auto simp: defs)
  next
    case AnswerMade
    then show ?thesis using facts by (intro pair_stageI) (auto simp: defs)
  next
    case AnswerReceived
    then show ?thesis using facts by (intro pair_stageI) (auto simp: defs)
  qed (use w t d(4,5) in auto)
qed

lemma inv_complete:
  assumes "pair_inv ids u v n" "act ids (Complete t) n = Some n'" "u \<noteq> v"
  shows "pair_inv ids u v n'"
proof -
  obtain g k j where inv: "pair_stage ids u v g k j n" using assms(1) by (auto simp: pair_inv_def)
  obtain op ops where ch: "chain (tabs n t) = op # ops" and n': "n' = complete t op n"
    using assms(2) by (auto split: list.splits)
  show ?thesis
  proof (cases "not_ice_op op")
    case False
    then obtain c where "op = OpAddIce c" by (cases op) auto
    then show ?thesis using inv_complete_ice [OF inv _ assms(3)] ch n' by (auto intro: pair_invI)
  next
    case True
    then show ?thesis using inv_complete_work [OF inv ch _ assms(3)] n' by (auto intro: pair_invI)
  qed
qed

lemma distinct_ids: "ids u > ids v \<Longrightarrow> u \<noteq> v" for ids :: "nat \<Rightarrow> jsstring"
  by (metis less_irrefl)

lemma reachable_inv:
  assumes "reachable ids {u, v} n" "ids u > ids v"
  shows "pair_inv ids u v n"
  using assms(1)
proof (induction rule: reachable.induct)
  case start
  show ?case by (rule pair_inv_empty [OF distinct_ids [OF assms(2)]])
next
  case (step n a n')
  note ne = distinct_ids [OF assms(2)]
  note act = step.hyps(2)
  show ?case
  proof (cases a)
    case (Open t)
    then have "t \<in> {u, v}" by (rule step.hyps(3))
    then show ?thesis using inv_open [OF step.IH act [unfolded Open] _ ne] by simp
  next
    case (Deliver s r)
    show ?thesis by (rule inv_deliver [OF step.IH act [unfolded Deliver] ne assms(2)])
  next
    case (Complete t)
    show ?thesis by (rule inv_complete [OF step.IH act [unfolded Complete] ne])
  next
    case (Candidate t)
    show ?thesis by (rule inv_candidate [OF step.IH act [unfolded Candidate] ne])
  qed
qed

lemma reachable_stage:
  assumes "reachable ids {u, v} n" "ids u > ids v"
  obtains g k j where "pair_stage ids u v g k j n"
  using reachable_inv [OF assms] by (auto simp: pair_inv_def)

lemma acts_reachable:
  "acts ids as n = Some n' \<Longrightarrow> reachable ids T n \<Longrightarrow> (\<And>t. Open t \<in> set as \<Longrightarrow> t \<in> T) \<Longrightarrow> reachable ids T n'"
proof (induction as arbitrary: n)
  case (Cons a as)
  obtain n1 where n1: "act ids a n = Some n1" "acts ids as n1 = Some n'"
    using Cons.prems(1) by (auto split: option.splits)
  have "reachable ids T n1" using reachable.step [OF Cons.prems(2) n1(1)] Cons.prems(3) by auto
  then show ?case using Cons.IH [OF n1(2)] Cons.prems(3) by auto
qed simp

end
