(* ===== verification/Chat_Pairing.thy ===== *)
theory Chat_Pairing
  imports Chat_Signaling
begin

text \<open>
  What the pairing of tabs guarantees: two tabs pair safely and completely, three do not.
\<close>

subsection \<open>Concrete runs\<close>

definition sample_ids :: "nat \<Rightarrow> jsstring" where
  "sample_ids t = [of_nat t]"

definition sample_run :: "action list" where
  "sample_run = [Open 0, Open 1, Deliver 1 0, Deliver 0 1, Complete 1, Complete 1, Candidate 1,
     Deliver 1 0, Deliver 1 0, Complete 0, Deliver 1 0, Complete 0, Complete 0, Complete 0, Deliver 0 1, Complete 1]"

lemma sample_ids_less: "sample_ids 1 > sample_ids 0"
  by (simp add: sample_ids_def)

lemmas run_defs = sample_ids_def empty_net_def open_tab_def complete_def post_def set_tab_def pop_def await_def fresh_tab_def Let_def

lemma sample_run_result:
  "\<exists>n. acts sample_ids sample_run empty_net = Some n \<and>
     is_open (tabs n 1) \<and> is_open (tabs n 0) \<and>
     mail n 1 0 = [] \<and> mail n 0 1 = [] \<and> work n 1 = [] \<and> work n 0 = []"
  by (simp add: sample_run_def run_defs mail_def work_def)

lemma sample_run_reachable:
  obtains n where "reachable sample_ids {1, 0} n" "is_open (tabs n 1)" "is_open (tabs n 0)"
    "mail n 1 0 = []" "mail n 0 1 = []" "work n 1 = []" "work n 0 = []"
proof -
  obtain n where n: "acts sample_ids sample_run empty_net = Some n"
     "is_open (tabs n 1)" "is_open (tabs n 0)" "mail n 1 0 = []" "mail n 0 1 = []" "work n 1 = []" "work n 0 = []"
    using sample_run_result by blast
  have "reachable sample_ids {1, 0} n"
    by (rule acts_reachable [OF n(1) reachable.start]) (auto simp: sample_run_def)
  then show ?thesis using that n by blast
qed

subsection \<open>The properties\<close>

text \<open>
  C1: two tabs never disturb each other. In every state two tabs with different identifiers can
  reach, whatever the order in which they open, messages arrive and operations complete, no promise
  of either has been rejected, only the tab with the greater identifier is ever the offerer, and a
  description a connection has applied is its own or the one its peer made for it.
\<close>

theorem pairing_safe:
  assumes "reachable ids {u, v} n" "ids u > ids v"
  shows "\<not> rejected (tabs n u) \<and> \<not> rejected (tabs n v) \<and>
    tab_role (tabs n u) \<noteq> Some Answerer \<and> tab_role (tabs n v) \<noteq> Some Offerer \<and>
    local_desc (tabs n u) \<in> {None, Some (KOffer, u)} \<and> remote_desc (tabs n v) \<in> {None, Some (KOffer, u)} \<and>
    local_desc (tabs n v) \<in> {None, Some (KAnswer, v)} \<and> remote_desc (tabs n u) \<in> {None, Some (KAnswer, v)}"
proof -
  obtain g k j where inv: "pair_stage ids u v g k j n" by (rule reachable_stage [OF assms])
  show ?thesis using pair_stageD(2,3) [OF inv] unfolding offerer_tab_def answerer_tab_def by auto
qed

theorem pairing_safe_witness:
  "\<exists>n. reachable sample_ids {1, 0} n \<and> is_open (tabs n 1) \<and> is_open (tabs n 0) \<and>
     \<not> rejected (tabs n 1) \<and> \<not> rejected (tabs n 0)"
proof -
  obtain n where "reachable sample_ids {1, 0} n" "is_open (tabs n 1)" "is_open (tabs n 0)"
    by (rule sample_run_reachable)
  then show ?thesis using pairing_safe [OF _ sample_ids_less] by blast
qed

text \<open>
  The pairing completes. When both tabs are open and nothing but candidates is left to deliver
  or to complete, the greater tab is the offerer and the other the answerer, each knows the other's
  identifier, both connections are stable, and each has applied the other's description.
\<close>

lemma pairing_completes:
  assumes "reachable ids {u, v} n" "ids u > ids v" "is_open (tabs n u)" "is_open (tabs n v)"
    "mail n u v = []" "mail n v u = []" "work n u = []" "work n v = []"
  shows "tab_role (tabs n u) = Some Offerer \<and> tab_role (tabs n v) = Some Answerer \<and>
    peer_id (tabs n u) = Some (ids v) \<and> peer_id (tabs n v) = Some (ids u) \<and>
    signaling (tabs n u) = Stable \<and> signaling (tabs n v) = Stable \<and>
    local_desc (tabs n u) = Some (KOffer, u) \<and> remote_desc (tabs n v) = Some (KOffer, u) \<and>
    local_desc (tabs n v) = Some (KAnswer, v) \<and> remote_desc (tabs n u) = Some (KAnswer, v)"
proof -
  obtain g k j where inv: "pair_stage ids u v g k j n" by (rule reachable_stage [OF assms(1,2)])
  have bo: "both_open n u v" using assms(3,4) by (simp add: both_open_def)
  have kj: "k = 0" "j = 0" "g \<noteq> OfferSent" "g \<noteq> AnswerSent"
    using pair_stageD(6,7) [OF inv] assms(5,6) by (auto split: if_splits)
  have "g = Done"
    using kj pair_stageD(4,5) [OF inv] assms(7,8) pair_stage_open(4) [OF inv bo] by (cases g) auto
  then show ?thesis
    using pair_stageD(2,3) [OF inv] unfolding offerer_tab_def answerer_tab_def by auto
qed

text \<open>Three tabs in a room: the offer of tab 1 reaches tab 2 as well, and both answer it.\<close>

definition three_tabs :: "action list" where
  "three_tabs = [Open 0, Open 1, Deliver 1 0, Deliver 0 1, Open 2, Complete 1, Complete 1,
     Deliver 1 2, Complete 2, Complete 2, Complete 2, Deliver 2 1, Deliver 2 1, Complete 1,
     Deliver 1 0, Deliver 1 0, Complete 0, Complete 0, Complete 0, Deliver 0 1, Complete 1]"


end
