(* ===== verification/Potential.thy ===== *)
theory Potential
  imports Interfaces
begin

text \<open>
  Machines that run dry: every step spends some of a potential, and only the cost of an event adds to
  it. A run is then no longer than what it started with and what its events added.
\<close>

locale draining_machine = machine step inv
  for step :: "'e \<Rightarrow> 's \<Rightarrow> 's option" and inv :: "'s \<Rightarrow> bool" +
  fixes potential :: "'s \<Rightarrow> nat" and gain :: "'e \<Rightarrow> nat"
  assumes step_drains: "step e s = Some s' \<Longrightarrow> inv s \<Longrightarrow> Suc (potential s') \<le> potential s + gain e"
begin

lemma run_drains:
  "run_events step es s = Some s' \<Longrightarrow> inv s \<Longrightarrow> length es + potential s' \<le> potential s + sum_list (map gain es)"
proof (induction es arbitrary: s)
  case (Cons e es)
  then obtain t where t: "step e s = Some t" "run_events step es t = Some s'" by (auto split: option.splits)
  then show ?case
    using step_drains [OF t(1) Cons.prems(2)] Cons.IH [OF t(2) step_inv [OF t(1) Cons.prems(2)]] by simp
qed simp

lemma run_length: "run_events step es s = Some s' \<Longrightarrow> inv s \<Longrightarrow> length es \<le> potential s + sum_list (map gain es)"
  using run_drains by fastforce

end

end
