(* ===== verification/Chat_Termination.thy ===== *)
theory Chat_Termination
  imports Chat_Pairing Potential
begin

text \<open>
  Signaling ends. Whatever the number of tabs in a room and however their actions interleave, a run
  is no longer than a bound given by the number of tabs and of candidates: a tab that has not been
  opened, a tab without a peer, an awaited operation and a message under way each carry a
  potential that pays for what they may still cause.
\<close>

subsection \<open>The potential\<close>

text \<open>A message is handed to at most \<open>R\<close> other tabs.\<close>

definition answer_cost :: "nat \<Rightarrow> nat" where
  "answer_cost R = 3 + 2 * R"

definition offer_cost :: "nat \<Rightarrow> nat" where
  "offer_cost R = 2 + R * Suc (answer_cost R)"

fun message_weight :: "nat \<Rightarrow> message \<Rightarrow> nat" where
  "message_weight R (Hello i) = 1"
| "message_weight R (SdpMsg (KOffer, s)) = Suc (answer_cost R)"
| "message_weight R (SdpMsg (KAnswer, s)) = 2"
| "message_weight R (IceMsg c) = 2"

fun operation_weight :: "nat \<Rightarrow> operation \<Rightarrow> nat" where
  "operation_weight R OpCreateOffer = offer_cost R"
| "operation_weight R (OpSetLocal (KOffer, s)) = 1 + R * Suc (answer_cost R)"
| "operation_weight R (OpSetRemote (KOffer, s)) = answer_cost R"
| "operation_weight R OpCreateAnswer = 2 + 2 * R"
| "operation_weight R (OpSetLocal (KAnswer, s)) = 1 + 2 * R"
| "operation_weight R (OpSetRemote (KAnswer, s)) = 1"
| "operation_weight R (OpAddIce c) = 1"

definition chain_weight :: "nat \<Rightarrow> operation list \<Rightarrow> nat" where
  "chain_weight R ops = sum_list (map (operation_weight R) ops)"

definition tab_weight :: "nat \<Rightarrow> tab \<Rightarrow> nat" where
  "tab_weight R x = (if is_open x then 0 else Suc R) + (if peer_id x = None then R + offer_cost R else 0)
     + chain_weight R (chain x)"

definition mail_weight :: "nat \<Rightarrow> message list \<Rightarrow> nat" where
  "mail_weight R ms = sum_list (map (message_weight R) ms)"

definition others :: "nat set \<Rightarrow> nat" where
  "others T = card T - 1"

definition tabs_weight :: "nat set \<Rightarrow> net \<Rightarrow> nat" where
  "tabs_weight T n = (\<Sum>t\<in>T. tab_weight (others T) (tabs n t))"

definition channels_weight :: "nat set \<Rightarrow> net \<Rightarrow> nat" where
  "channels_weight T n = (\<Sum>(s, r)\<in>T \<times> T. mail_weight (others T) (channel n s r))"

definition net_weight :: "nat set \<Rightarrow> net \<Rightarrow> nat" where
  "net_weight T n = tabs_weight T n + channels_weight T n"

lemma weight_simps [simp]:
  "chain_weight R [] = 0" "chain_weight R (op # ops) = operation_weight R op + chain_weight R ops"
  "chain_weight R (ops @ ops') = chain_weight R ops + chain_weight R ops'"
  "mail_weight R [] = 0" "mail_weight R (m # ms) = message_weight R m + mail_weight R ms"
  "mail_weight R (ms @ ms') = mail_weight R ms + mail_weight R ms'"
  by (simp_all add: chain_weight_def mail_weight_def)

subsection \<open>What the steps do to it\<close>

lemma tabs_weight_set:
  assumes "finite T" "t \<in> T"
  shows "tabs_weight T (set_tab t x n) + tab_weight (others T) (tabs n t) = tabs_weight T n + tab_weight (others T) x"
proof -
  have "(\<Sum>r\<in>T - {t}. tab_weight (others T) (((tabs n)(t := x)) r)) = (\<Sum>r\<in>T - {t}. tab_weight (others T) (tabs n r))"
    by (rule sum.cong) auto
  then show ?thesis
    using sum.remove [OF assms, of "\<lambda>r. tab_weight (others T) (tabs n r)"]
      sum.remove [OF assms, of "\<lambda>r. tab_weight (others T) (((tabs n)(t := x)) r)"]
    by (simp add: tabs_weight_def)
qed

lemma weights_unchanged [simp]:
  "tabs_weight T (post s m n) = tabs_weight T n" "tabs_weight T (pop s r n) = tabs_weight T n"
  "channels_weight T (set_tab t x n) = channels_weight T n"
  by (simp_all add: tabs_weight_def channels_weight_def)

lemma channels_weight_pop:
  assumes "finite T" "s \<in> T" "r \<in> T" "channel n s r = m # ms"
  shows "channels_weight T (pop s r n) + message_weight (others T) m = channels_weight T n"
proof -
  have sr: "(s, r) \<in> T \<times> T" "finite (T \<times> T)" using assms by auto
  let ?f = "\<lambda>n (s, r). mail_weight (others T) (channel n s r)"
  have "(\<Sum>p\<in>T \<times> T - {(s, r)}. ?f (pop s r n) p) = (\<Sum>p\<in>T \<times> T - {(s, r)}. ?f n p)"
    by (rule sum.cong) (auto simp: channel_pop split: if_splits)
  then show ?thesis
    using sum.remove [OF sr(2,1), of "?f n"] sum.remove [OF sr(2,1), of "?f (pop s r n)"] assms(4)
    by (simp add: channels_weight_def channel_pop)
qed

lemma channels_weight_post:
  assumes "finite T" "s \<in> T"
  shows "channels_weight T (post s m n) \<le> channels_weight T n + others T * message_weight (others T) m"
proof -
  let ?w = "message_weight (others T) m"
  let ?d = "\<lambda>(s', r). if s' = s \<and> r \<noteq> s then ?w else 0"
  have "channels_weight T (post s m n) \<le> (\<Sum>p\<in>T \<times> T. (case p of (s', r) \<Rightarrow> mail_weight (others T) (channel n s' r)) + ?d p)"
    unfolding channels_weight_def by (rule sum_mono) (auto simp: channel_post)
  also have "\<dots> = channels_weight T n + (\<Sum>p\<in>T \<times> T. ?d p)"
    by (simp add: channels_weight_def sum.distrib)
  also have "(\<Sum>p\<in>T \<times> T. ?d p) = (\<Sum>p\<in>{s} \<times> (T - {s}). ?w)"
    by (rule sum.mono_neutral_cong_right) (use assms in \<open>auto split: if_splits\<close>)
  also have "\<dots> = others T * ?w" using assms by (simp add: others_def card_cartesian_product_singleton)
  finally show ?thesis .
qed

subsection \<open>Rooms\<close>

text \<open>The tabs of a room are the ones that may open it; closed tabs are fresh and get no messages.\<close>

definition room_step :: "(nat \<Rightarrow> jsstring) \<Rightarrow> nat set \<Rightarrow> action \<Rightarrow> net \<Rightarrow> net option" where
  "room_step ids T a n = (case a of Open t \<Rightarrow> if t \<in> T then act ids a n else None | _ \<Rightarrow> act ids a n)"

definition room :: "nat set \<Rightarrow> net \<Rightarrow> bool" where
  "room T n \<longleftrightarrow> finite T \<and> (\<forall>t. is_open (tabs n t) \<longrightarrow> t \<in> T) \<and> (\<forall>t. \<not> is_open (tabs n t) \<longrightarrow> tabs n t = fresh_tab) \<and>
     (\<forall>s r. channel n s r \<noteq> [] \<longrightarrow> s \<in> T \<and> is_open (tabs n r))"

lemma room_open: "room T n \<Longrightarrow> tabs n t \<noteq> fresh_tab \<Longrightarrow> t \<in> T \<and> is_open (tabs n t)"
  by (auto simp: room_def)

lemma room_channel: "room T n \<Longrightarrow> channel n s r \<noteq> [] \<Longrightarrow> s \<in> T \<and> r \<in> T \<and> is_open (tabs n r)"
  by (auto simp: room_def)

lemma room_set: "room T n \<Longrightarrow> t \<in> T \<Longrightarrow> is_open x \<Longrightarrow> room T (set_tab t x n)"
  by (auto simp: room_def)

lemma room_post: "room T n \<Longrightarrow> s \<in> T \<Longrightarrow> room T (post s m n)"
  by (auto simp: room_def channel_post split: if_splits)

lemma room_pop: "room T n \<Longrightarrow> room T (pop s r n)"
  unfolding room_def net_simps by (meson pop_nonempty)

lemma set_local_keeps: "set_local d x = Some y \<Longrightarrow> is_open y = is_open x \<and> chain y = chain x \<and> peer_id y = peer_id x"
  by (cases "(d, x)" rule: set_local.cases) (auto split: if_splits)

lemma set_remote_keeps: "set_remote d x = Some y \<Longrightarrow> is_open y = is_open x \<and> chain y = chain x \<and> peer_id y = peer_id x"
  by (cases "(d, x)" rule: set_remote.cases) (auto split: if_splits)

text \<open>The parts of a step: what a tab becomes, and what is posted.\<close>

lemma room_message: "room T n \<Longrightarrow> r \<in> T \<Longrightarrow> is_open (tabs n r) \<Longrightarrow> room T (on_message ids r m n)"
  by (cases m) (auto simp: Let_def intro!: room_set room_post)

lemma room_complete: "room T n \<Longrightarrow> t \<in> T \<Longrightarrow> is_open (tabs n t) \<Longrightarrow> room T (complete t op n)"
  by (cases op) (auto simp: complete_def Let_def intro!: room_set room_post
      split: option.splits dest!: set_local_keeps set_remote_keeps)

lemma room_step_room: "room_step ids T a n = Some n' \<Longrightarrow> room T n \<Longrightarrow> room T n'"
proof (cases a)
  case (Open t)
  assume "room_step ids T a n = Some n'" "room T n"
  then show ?thesis
    by (auto simp: Open room_step_def open_tab_def intro!: room_set room_post split: if_splits)
next
  case (Deliver s r)
  assume step: "room_step ids T a n = Some n'" and n: "room T n"
  then obtain m ms where m: "channel n s r = m # ms" "n' = on_message ids r m (pop s r n)"
    by (auto simp: Deliver room_step_def split: list.splits)
  then show ?thesis using room_channel [OF n, of s r] room_pop [OF n] by (auto intro!: room_message)
next
  case (Complete t)
  assume step: "room_step ids T a n = Some n'" and n: "room T n"
  then obtain op ops where "chain (tabs n t) = op # ops" "n' = complete t op n"
    by (auto simp: Complete room_step_def split: list.splits)
  then show ?thesis using room_open [OF n, of t] n by (force intro: room_complete)
next
  case (Candidate t)
  assume step: "room_step ids T a n = Some n'" and n: "room T n"
  then have "local_desc (tabs n t) \<noteq> None" "n' = post t (IceMsg t) n" by (auto simp: Candidate room_step_def split: if_splits)
  then show ?thesis using room_open [OF n, of t] n by (force intro: room_post)
qed

subsection \<open>The potential goes down\<close>

lemma message_drains:
  assumes n: "room T n" and ch: "channel n s r = m # ms"
  shows "Suc (net_weight T (on_message ids r m (pop s r n))) \<le> net_weight T n"
proof -
  let ?R = "others T" and ?n = "pop s r n"
  have fin: "finite T" and sr: "s \<in> T" "r \<in> T" and op: "is_open (tabs n r)"
    using n room_channel [OF n, of s r] ch by (auto simp: room_def)
  note popped = channels_weight_pop [OF fin sr ch]
  note tab = tabs_weight_set [OF fin sr(2), of _ ?n]
  show ?thesis
  proof (cases m)
    case (SdpMsg d)
    then show ?thesis
      using popped tab [of "await (OpSetRemote d) (tabs n r)"]
      by (cases d; cases "fst d") (auto simp: net_weight_def tab_weight_def answer_cost_def)
  next
    case (IceMsg k)
    then show ?thesis
      using popped tab [of "await (OpAddIce k) (tabs n r)"] by (simp add: net_weight_def tab_weight_def)
  next
    case (Hello i)
    show ?thesis
    proof (cases "peer_id (tabs n r) = None")
      case False
      then show ?thesis using popped Hello by (simp add: net_weight_def)
    next
      case True
      let ?x = "if ids r > i then await OpCreateOffer ((tabs n r)\<lparr>peer_id := Some i, tab_role := Some Offerer\<rparr>)
         else (tabs n r)\<lparr>peer_id := Some i, tab_role := Some Answerer\<rparr>"
      have eq: "on_message ids r m ?n = post r (Hello (ids r)) (set_tab r ?x ?n)"
        using True Hello by (simp add: Let_def)
      have "tab_weight ?R ?x + ?R \<le> tab_weight ?R (tabs n r)"
        using True by (simp add: tab_weight_def)
      then show ?thesis
        using popped tab [of ?x] channels_weight_post [OF fin sr(2), of "Hello (ids r)" "set_tab r ?x ?n"] Hello
        unfolding eq by (simp add: net_weight_def)
    qed
  qed
qed

lemma operation_drains:
  assumes n: "room T n" and ch: "chain (tabs n t) = op # ops"
  shows "Suc (net_weight T (complete t op n)) \<le> net_weight T n"
proof -
  let ?R = "others T" and ?x = "(tabs n t)\<lparr>chain := ops\<rparr>"
  have t: "t \<in> T" "is_open (tabs n t)" using room_open [OF n, of t] ch by force+
  have fin: "finite T" using n by (simp add: room_def)
  note tab = tabs_weight_set [OF fin t(1), of _ n]
  have x: "tab_weight ?R (tabs n t) = tab_weight ?R ?x + operation_weight ?R op" using t(2) by (simp add: tab_weight_def ch)
  have rej: "tab_weight ?R (?x\<lparr>rejected := True\<rparr>) = tab_weight ?R ?x" by (simp add: tab_weight_def)
  have aw: "tab_weight ?R (await op' y) = tab_weight ?R y + operation_weight ?R op'" for op' y
    by (simp add: tab_weight_def)
  note defs = complete_def Let_def ch net_weight_def
  show ?thesis
  proof (cases op)
    case OpCreateOffer
    then show ?thesis using tab [of "await (OpSetLocal (KOffer, t)) ?x"] x aw by (simp add: defs offer_cost_def)
  next
    case OpCreateAnswer
    then show ?thesis using tab [of "await (OpSetLocal (KAnswer, t)) ?x"] tab [of "?x\<lparr>rejected := True\<rparr>"] x aw rej
      by (simp add: defs)
  next
    case (OpAddIce k)
    then show ?thesis using tab [of ?x] x by (simp add: defs)
  next
    case (OpSetLocal d)
    obtain k a where d: "d = (k, a)" by (cases d)
    show ?thesis
    proof (cases "set_local d ?x")
      case None
      then show ?thesis using OpSetLocal d tab [of "?x\<lparr>rejected := True\<rparr>"] x rej by (cases k) (simp_all add: defs)
    next
      case (Some y)
      have "tab_weight ?R y = tab_weight ?R ?x" using set_local_keeps [OF Some] by (simp add: tab_weight_def)
      then show ?thesis
        using OpSetLocal Some d x tab [of y] channels_weight_post [OF fin t(1), of "SdpMsg d" "set_tab t y n"]
        by (cases k) (simp_all add: defs)
    qed
  next
    case (OpSetRemote d)
    obtain k a where d: "d = (k, a)" by (cases d)
    show ?thesis
    proof (cases "set_remote d ?x")
      case None
      then show ?thesis using OpSetRemote d tab [of "?x\<lparr>rejected := True\<rparr>"] x rej by (cases k) (simp_all add: defs answer_cost_def)
    next
      case (Some y)
      have "tab_weight ?R y = tab_weight ?R ?x" using set_remote_keeps [OF Some] by (simp add: tab_weight_def)
      then show ?thesis
        using OpSetRemote Some d x tab [of y] tab [of "await OpCreateAnswer y"] aw
        by (cases k) (simp_all add: defs answer_cost_def)
    qed
  qed
qed

lemma open_drains:
  assumes n: "room T n" and t: "t \<in> T" "\<not> is_open (tabs n t)"
  shows "Suc (net_weight T (open_tab ids t n)) \<le> net_weight T n"
proof -
  have fin: "finite T" and fresh: "tabs n t = fresh_tab" using n t(2) by (auto simp: room_def)
  let ?x = "fresh_tab\<lparr>is_open := True\<rparr>"
  have "tab_weight (others T) (tabs n t) = Suc (others T) + tab_weight (others T) ?x"
    by (simp add: fresh tab_weight_def)
  then show ?thesis
    using tabs_weight_set [OF fin t(1), of ?x n] channels_weight_post [OF fin t(1), of "Hello (ids t)" "set_tab t ?x n"]
    by (simp add: open_tab_def net_weight_def)
qed

lemma candidate_drains:
  assumes n: "room T n" and t: "local_desc (tabs n t) \<noteq> None"
  shows "Suc (net_weight T (post t (IceMsg t) n)) \<le> net_weight T n + Suc (2 * others T)"
proof -
  have fin: "finite T" using n by (simp add: room_def)
  have tt: "t \<in> T" using room_open [OF n, of t] t by force
  show ?thesis using channels_weight_post [OF fin tt, of "IceMsg t" n] by (simp add: net_weight_def)
qed

text \<open>What an action adds: only a candidate, one message to every other tab.\<close>

definition action_gain :: "nat set \<Rightarrow> action \<Rightarrow> nat" where
  "action_gain T a = (case a of Candidate t \<Rightarrow> Suc (2 * others T) | _ \<Rightarrow> 0)"

interpretation rooms: draining_machine "room_step ids T" "room T" "net_weight T" "action_gain T" for ids T
proof (unfold_locales, goal_cases)
  case (1 a n n')
  then show ?case by (rule room_step_room)
next
  case (2 a n n')
  show ?case
  proof (cases a)
    case (Open t)
    then show ?thesis using 2 open_drains by (auto simp: room_step_def action_gain_def split: if_splits)
  next
    case (Deliver s r)
    then show ?thesis using 2 message_drains by (fastforce simp: room_step_def action_gain_def split: list.splits)
  next
    case (Complete t)
    then show ?thesis using 2 operation_drains by (fastforce simp: room_step_def action_gain_def split: list.splits)
  next
    case (Candidate t)
    then show ?thesis using 2 candidate_drains by (auto simp: room_step_def action_gain_def split: if_splits)
  qed
qed

subsection \<open>The properties\<close>

lemma acts_room: "(\<And>t. Open t \<in> set as \<Longrightarrow> t \<in> T) \<Longrightarrow> acts ids as n = run_events (room_step ids T) as n"
proof (induction as arbitrary: n)
  case (Cons a as)
  have "room_step ids T a = act ids a" using Cons.prems by (cases a) (auto simp: room_step_def fun_eq_iff)
  then show ?case using Cons by (simp split: option.splits)
qed simp

fun is_candidate :: "action \<Rightarrow> bool" where
  "is_candidate (Candidate t) \<longleftrightarrow> True" | "is_candidate _ \<longleftrightarrow> False"

lemma sum_gain: "sum_list (map (action_gain T) as) = length (filter is_candidate as) * Suc (2 * others T)"
  by (induction as rule: list.induct) (auto simp: action_gain_def split: action.splits)

lemma empty_room: "finite T \<Longrightarrow> room T empty_net"
  by (simp add: room_def empty_net_def)

lemma empty_weight: "finite T \<Longrightarrow> net_weight T empty_net = card T * (1 + 2 * others T + offer_cost (others T))"
  by (simp add: net_weight_def tabs_weight_def channels_weight_def empty_net_def tab_weight_def)

text \<open>
  C19: signaling ends. A run of the tabs of a room, in whatever order they open, messages arrive and
  operations complete, has no more actions than a bound given by the number of tabs and of
  candidates: two tabs are done after at most 22 actions and 3 for each candidate.
\<close>

theorem signaling_terminates:
  assumes "acts ids as empty_net = Some n" "finite T" "\<forall>t. Open t \<in> set as \<longrightarrow> t \<in> T"
  shows "length as \<le> card T * (1 + 2 * (card T - 1) + (2 + (card T - 1) * (4 + 2 * (card T - 1))))
      + length (filter is_candidate as) * (1 + 2 * (card T - 1)) \<and>
    (card T = 2 \<longrightarrow> length as \<le> 22 + 3 * length (filter is_candidate as))"
proof -
  have "run_events (room_step ids T) as empty_net = Some n" using assms(1,3) acts_room [of as T ids] by auto
  from rooms.run_length [OF this empty_room [OF assms(2)]]
  have "length as \<le> card T * (1 + 2 * others T + offer_cost (others T)) + length (filter is_candidate as) * Suc (2 * others T)"
    by (simp add: sum_gain empty_weight [OF assms(2)])
  moreover have "offer_cost R = 2 + R * (4 + 2 * R)" for R by (simp add: offer_cost_def answer_cost_def)
  ultimately have bound: "length as \<le> card T * (1 + 2 * (card T - 1) + (2 + (card T - 1) * (4 + 2 * (card T - 1))))
      + length (filter is_candidate as) * (1 + 2 * (card T - 1))" by (simp only: others_def Suc_eq_plus1_left)
  then show ?thesis by (cases "card T = 2") simp_all
qed

theorem signaling_terminates_witness:
  "length sample_run \<le> 22 + 3 * length (filter is_candidate sample_run)"
proof -
  obtain n where "acts sample_ids sample_run empty_net = Some n" using sample_run_result by blast
  moreover have "finite {0, 1 :: nat}" "card {0, 1 :: nat} = 2" "\<forall>t. Open t \<in> set sample_run \<longrightarrow> t \<in> {0, 1}"
    by (auto simp: sample_run_def)
  ultimately show ?thesis using signaling_terminates [of sample_ids sample_run n "{0, 1}"] by simp
qed

text \<open>A run that can go on only with candidates has opened both tabs and left nothing to deliver or complete.\<close>

lemma exhausted:
  assumes "\<forall>a. \<not> is_candidate a \<longrightarrow> room_step ids T a n = None"
  shows "t \<in> T \<Longrightarrow> is_open (tabs n t)" "channel n s r = []" "chain (tabs n t') = []"
  using assms [rule_format, of "Open t"] assms [rule_format, of "Deliver s r"] assms [rule_format, of "Complete t'"]
  by (auto simp: room_step_def split: list.splits if_splits)

text \<open>
  C4: two tabs that are opened are paired. A run of two tabs that can go on only with candidates, which
  it is after at most 22 actions and 3 for each candidate, has made the tab with the greater
  identifier the offerer and the other the answerer; each knows the other's identifier, both
  connections are stable, each has applied the other's description, and nothing was rejected.
\<close>

theorem two_tabs_pair:
  assumes "acts ids as empty_net = Some n" "ids u > ids v" "\<forall>t. Open t \<in> set as \<longrightarrow> t \<in> {u, v}"
    and "\<forall>a. \<not> is_candidate a \<longrightarrow> room_step ids {u, v} a n = None"
  shows "length as \<le> 22 + 3 * length (filter is_candidate as) \<and>
    tab_role (tabs n u) = Some Offerer \<and> tab_role (tabs n v) = Some Answerer \<and>
    peer_id (tabs n u) = Some (ids v) \<and> peer_id (tabs n v) = Some (ids u) \<and>
    signaling (tabs n u) = Stable \<and> signaling (tabs n v) = Stable \<and>
    local_desc (tabs n u) = Some (KOffer, u) \<and> remote_desc (tabs n v) = Some (KOffer, u) \<and>
    local_desc (tabs n v) = Some (KAnswer, v) \<and> remote_desc (tabs n u) = Some (KAnswer, v) \<and>
    \<not> rejected (tabs n u) \<and> \<not> rejected (tabs n v)"
proof -
  have reach: "reachable ids {u, v} n" by (rule acts_reachable [OF assms(1) reachable.start]) (use assms(3) in auto)
  have "is_open (tabs n u)" "is_open (tabs n v)" "mail n u v = []" "mail n v u = []" "work n u = []" "work n v = []"
    using exhausted [OF assms(4)] by (simp_all add: mail_def work_def)
  note paired = pairing_completes [OF reach assms(2) this]
  have "\<not> rejected (tabs n u) \<and> \<not> rejected (tabs n v)"
    using reachable_stage [OF reach assms(2)] pair_stageD(2,3) unfolding offerer_tab_def answerer_tab_def by metis
  moreover have "run_events (room_step ids {u, v}) as empty_net = Some n" using assms(1,3) acts_room [of as "{u, v}" ids] by auto
  from rooms.run_length [OF this empty_room] have "length as \<le> 22 + 3 * length (filter is_candidate as)"
    using distinct_ids [OF assms(2)] by (simp add: sum_gain empty_weight others_def offer_cost_def answer_cost_def)
  ultimately show ?thesis using paired by simp
qed

theorem two_tabs_pair_witness:
  "\<exists>n. acts sample_ids sample_run empty_net = Some n \<and> remote_desc (tabs n 1) = Some (KAnswer, 0) \<and>
     remote_desc (tabs n 0) = Some (KOffer, 1)"
proof -
  obtain n where n: "acts sample_ids sample_run empty_net = Some n" "is_open (tabs n 1)" "is_open (tabs n 0)"
      "channel n 1 0 = []" "channel n 0 1 = []" "channel n 1 1 = []" "channel n 0 0 = []"
      "chain (tabs n 0) = []" "chain (tabs n 1) = []"
    by (simp add: sample_run_def run_defs)
  have opens: "\<forall>t. Open t \<in> set sample_run \<longrightarrow> t \<in> {1, 0}" by (auto simp: sample_run_def)
  then have "run_events (room_step sample_ids {1, 0}) sample_run empty_net = Some n"
    using n(1) acts_room [of sample_run "{1, 0}" sample_ids] by simp
  from rooms.run_inv [OF this empty_room] have room: "room {1, 0} n" by simp
  have "channel n s r = []" for s r using room_channel [OF room, of s r] n(4-7) by auto
  moreover have "chain (tabs n t) = []" for t using room_open [OF room, of t] n(8,9) by force
  ultimately have "\<forall>a. \<not> is_candidate a \<longrightarrow> room_step sample_ids {1, 0} a n = None"
    using n(2,3) by (auto simp: room_step_def split: action.splits)
  then show ?thesis using two_tabs_pair [OF n(1) sample_ids_less opens] n(1) by blast
qed

end
