(* ===== verification/Chat_Manual.thy ===== *)
theory Chat_Manual
  imports Chat_UI Chat_SDP
begin

text \<open>
  Manual signaling of \<open>examples/chat/chat.js\<close>: the wait for ICE candidates, the links that carry
  an offer and an answer, the handlers of the manual page, and \<open>bootstrap\<close>. The connection's
  promises are events; the QR library is the argument \<open>draw\<close>, whose error is the \<open>message\<close>
  property of the value it throws.
\<close>

subsection \<open>\<open>waitIceComplete\<close>\<close>

record gathering =
  g_listening :: bool
  g_timer :: bool
  g_returned :: bool

datatype gather_event =
    StateChange bool
  | CandidateEvent "ice_candidate option"
  | CapReached

definition gather_finish :: "gathering \<Rightarrow> gathering" where
  "gather_finish g = g\<lparr>g_timer := False, g_listening := False, g_returned := True\<rparr>"

fun gather_step :: "gather_event \<Rightarrow> gathering \<Rightarrow> gathering" where
  "gather_step (StateChange ok) g = (if g_listening g \<and> ok then gather_finish g else g)"
| "gather_step (CandidateEvent c) g =
     (case c of None \<Rightarrow> g | Some c' \<Rightarrow> if g_listening g \<and> is_srflx c' then gather_finish g else g)"
| "gather_step CapReached g = (if g_timer g then gather_finish g else g)"

definition waitIceComplete :: "bool \<Rightarrow> gather_event list \<Rightarrow> gathering" where
  "waitIceComplete ready evs =
     (if ready then \<lparr>g_listening = False, g_timer = False, g_returned = True\<rparr>
      else fold gather_step evs \<lparr>g_listening = True, g_timer = True, g_returned = False\<rparr>)"

text \<open>The events that end the wait.\<close>

fun routable :: "gather_event \<Rightarrow> bool" where
  "routable (StateChange ok) \<longleftrightarrow> ok"
| "routable (CandidateEvent c) \<longleftrightarrow> (case c of None \<Rightarrow> False | Some c' \<Rightarrow> is_srflx c')"
| "routable CapReached \<longleftrightarrow> True"

subsection \<open>The location\<close>

record location =
  origin :: jsstring
  pathname :: jsstring
  search :: jsstring
  hash :: jsstring

definition room :: "location \<Rightarrow> jsstring" where
  "room l = (case search_get (js ''room'') (search_params (search l)) of
     None \<Rightarrow> js ''lobby'' | Some r \<Rightarrow> if r = [] then js ''lobby'' else r)"

definition isManual :: "location \<Rightarrow> bool" where
  "isManual l \<longleftrightarrow> search_has (js ''manual'') (search_params (search l)) \<or> starts_with (js ''#offer='') (hash l)"

definition linkFor :: "location \<Rightarrow> jsstring \<Rightarrow> jsstring" where
  "linkFor l h = origin l @ pathname l @ h"

definition manual_url :: "location \<Rightarrow> jsstring" where
  "manual_url l = pathname l @ js ''?manual''"

subsection \<open>The QR code and the warnings\<close>

datatype qr_view = QrEmpty | QrImage jsstring | QrText jsstring

definition renderQR :: "(jsstring \<Rightarrow> jsstring option + jsstring) \<Rightarrow> jsstring \<Rightarrow> qr_view" where
  "renderQR draw t = (case draw t of
       Inr url \<Rightarrow> QrImage (js ''<img alt=\"QR\" src=\"'' @ url @ js ''\" />'')
     | Inl m \<Rightarrow> QrText (js ''(QR unavailable: '' @ show_opt m @ js '')''))"

definition hasPublicCandidate :: "description \<Rightarrow> bool" where
  "hasPublicCandidate d \<longleftrightarrow> contains (js ''typ srflx'') (d_sdp d)"

definition lanOnlyWarning :: "description \<Rightarrow> jsstring" where
  "lanOnlyWarning d = (if hasPublicCandidate d then []
     else js ''<p style=\"color:#b26a00\">'' @ [0x26A0] @
       js '' LAN-only: no public (STUN) candidate was gathered in time, so this link will only connect on the same machine or local network '' @
       [0x2014] @ js '' not across the internet. Reload to retry.</p>'')"

subsection \<open>\<open>manualSignaling\<close>\<close>

datatype phase = Applying | Creating | Gathering | Shown | Failed js_error

record manual =
  m_role :: role
  m_phase :: phase
  m_remote :: "description option"
  m_status :: jsstring
  m_link :: "jsstring option"
  m_body :: jsstring
  m_qr :: qr_view
  m_connecting :: "description option"

definition offer_param :: "location \<Rightarrow> jsstring option" where
  "offer_param l = (case search_get (js ''offer'') (search_params (drop 1 (hash l))) of
     None \<Rightarrow> None | Some p \<Rightarrow> if p = [] then None else Some p)"

definition answer_param :: "jsstring \<Rightarrow> jsstring option" where
  "answer_param v =
     (let rest = (if 0x23 \<in> set v then drop 1 (dropWhile (\<lambda>c. c \<noteq> 0x23) v) else v) in
      case search_get (js ''answer'') (search_params rest) of
        None \<Rightarrow> None | Some a \<Rightarrow> if a = [] then None else Some a)"

definition remote_of :: "jsstring \<Rightarrow> description result" where
  "remote_of p = rbind (decodeURIComponent p) unpackSdp"

definition link_of :: "location \<Rightarrow> jsstring \<Rightarrow> description \<Rightarrow> jsstring result" where
  "link_of l key d = rbind (packSdp d) (\<lambda>p. rbind (encodeURIComponent p) (\<lambda>e. Inr (linkFor l (js ''#'' @ key @ js ''='' @ e))))"

definition manual_start :: "location \<Rightarrow> manual" where
  "manual_start l =
     (let m = \<lparr>m_role = Offerer, m_phase = Creating, m_remote = None, m_status = js ''manual mode'', m_link = None,
                m_body = [], m_qr = QrEmpty, m_connecting = None\<rparr>
      in case offer_param l of
           None \<Rightarrow> m
         | Some p \<Rightarrow> (case remote_of p of
               Inl e \<Rightarrow> m\<lparr>m_role := Answerer, m_phase := Failed e\<rparr>
             | Inr d \<Rightarrow> m\<lparr>m_role := Answerer, m_phase := Applying, m_remote := Some d\<rparr>))"

datatype manual_event =
    RemoteApplied "js_error option"
  | LocalSet "js_error option"
  | Gathered description
  | ApplyClick jsstring
  | AnswerApplied "js_error option"

definition offer_body :: "description \<Rightarrow> jsstring \<Rightarrow> jsstring" where
  "offer_body d link = lanOnlyWarning d @ js ''<p>Share this <b>offer</b> with your peer (scan or copy):</p><div class=\"link\">''
     @ link @ js ''</div>'' @ [0x0A] @ js ''       <p>Paste the <b>answer</b> they send back:</p>'' @ [0x0A]
     @ js ''       <textarea id=\"ans\" placeholder=\"paste the #answer='' @ [0x2026] @ js '' link\"></textarea>'' @ [0x0A]
     @ js ''       <button id=\"applyAns\">connect</button>''"

definition answer_body :: "description \<Rightarrow> jsstring \<Rightarrow> jsstring" where
  "answer_body d link = lanOnlyWarning d @ js ''<p>Send this <b>answer</b> back (scan or copy):</p><div class=\"link\">''
     @ link @ js ''</div>''"

definition ready_status :: "role \<Rightarrow> description \<Rightarrow> jsstring" where
  "ready_status r d = (case r of
       Answerer \<Rightarrow> if hasPublicCandidate d then js ''answer ready '' @ [0x2014] @ js '' send it back to the offerer''
         else js ''answer ready (LAN-only)''
     | Offerer \<Rightarrow> if hasPublicCandidate d then js ''offer ready '' @ [0x2014] @ js '' share it, then paste the answer''
         else js ''offer ready (LAN-only)'')"

text \<open>After \<open>waitIceComplete\<close> returns, with the local description of that moment.\<close>

definition show_link :: "(jsstring \<Rightarrow> jsstring option + jsstring) \<Rightarrow> location \<Rightarrow> description \<Rightarrow> manual \<Rightarrow> manual" where
  "show_link draw l d m =
     (case link_of l (case m_role m of Answerer \<Rightarrow> js ''answer'' | Offerer \<Rightarrow> js ''offer'') d of
        Inl e \<Rightarrow> m\<lparr>m_phase := Failed e\<rparr>
      | Inr link \<Rightarrow> m\<lparr>m_phase := Shown, m_link := Some link, m_status := ready_status (m_role m) d,
          m_body := (case m_role m of Answerer \<Rightarrow> answer_body d link | Offerer \<Rightarrow> offer_body d link),
          m_qr := renderQR draw link\<rparr>)"

text \<open>The connect button, which exists only on the offerer's page; an exception of its handler is not reported.\<close>

definition apply_answer :: "jsstring \<Rightarrow> manual \<Rightarrow> manual" where
  "apply_answer v m = (case answer_param (js_trim v) of
       None \<Rightarrow> m
     | Some a \<Rightarrow> (case remote_of a of Inl e \<Rightarrow> m | Inr d \<Rightarrow> m\<lparr>m_connecting := Some d\<rparr>))"

fun manual_step :: "(jsstring \<Rightarrow> jsstring option + jsstring) \<Rightarrow> location \<Rightarrow> manual_event \<Rightarrow> manual \<Rightarrow> manual" where
  "manual_step draw l (RemoteApplied err) m =
     (if m_phase m = Applying then (case err of None \<Rightarrow> m\<lparr>m_phase := Creating\<rparr> | Some e \<Rightarrow> m\<lparr>m_phase := Failed e\<rparr>) else m)"
| "manual_step draw l (LocalSet err) m =
     (if m_phase m = Creating then
        (case err of None \<Rightarrow> m\<lparr>m_phase := Gathering, m_status := js ''gathering network path'' @ [0x2026]\<rparr>
                   | Some e \<Rightarrow> m\<lparr>m_phase := Failed e\<rparr>) else m)"
| "manual_step draw l (Gathered d) m = (if m_phase m = Gathering then show_link draw l d m else m)"
| "manual_step draw l (ApplyClick v) m =
     (if m_phase m = Shown \<and> m_role m = Offerer then apply_answer v m else m)"
| "manual_step draw l (AnswerApplied err) m =
     (if m_connecting m \<noteq> None \<and> err = None
      then m\<lparr>m_status := js ''answer applied '' @ [0x2014] @ js '' connecting'' @ [0x2026]\<rparr> else m)"

definition manual_run :: "(jsstring \<Rightarrow> jsstring option + jsstring) \<Rightarrow> location \<Rightarrow> manual_event list \<Rightarrow> manual" where
  "manual_run draw l evs = fold (manual_step draw l) evs (manual_start l)"

subsection \<open>\<open>bootstrap\<close>\<close>

text \<open>
  The servers resolved, the connection may fail to be constructed and the wasm module to load; the
  signaling function is started without being awaited.
\<close>

datatype mode = ManualMode | BroadcastMode

definition bootstrap :: "location \<Rightarrow> jsstring option \<Rightarrow> jsstring option \<Rightarrow> page \<Rightarrow> page \<times> mode option" where
  "bootstrap l construct_error ready_error p =
     (case construct_error of
        Some e \<Rightarrow> (setStatus (js ''startup failed: '' @ e) False p, None)
      | None \<Rightarrow> (case ready_error of
          Some e \<Rightarrow> (setStatus (js ''startup failed: '' @ e) False p, None)
        | None \<Rightarrow> (setStatus (if isManual l then js ''manual mode'' else js ''ready'') False p,
            Some (if isManual l then ManualMode else BroadcastMode))))"

end
