(* ===== verification/Chat_SDP_Correct.thy ===== *)
theory Chat_SDP_Correct
  imports Chat_SDP
begin

text \<open>
  Packing and unpacking keep the attributes of a description. The attributes are read with the
  regular expressions of \<open>packSdp\<close> itself, on the description given and on the one rebuilt.
\<close>

subsection \<open>Searching line by line\<close>

text \<open>Every pattern starts with a letter and an equals sign.\<close>

definition not_eq :: "jsstring \<Rightarrow> bool" where
  "not_eq r \<longleftrightarrow> r = [] \<or> hd r \<noteq> 0x3D"

lemma not_eq_simps [simp]: "not_eq []" "not_eq (c # s) \<longleftrightarrow> c \<noteq> 0x3D"
  by (simp_all add: not_eq_def)

lemma not_eq_append: "0x3D \<notin> set xs \<Longrightarrow> not_eq ys \<Longrightarrow> not_eq (xs @ ys)"
  by (cases xs) auto

lemma not_eq_crlf [simp]: "not_eq (crlf @ r)"
  by (simp add: crlf_def)

definition needs_eq :: "(jsstring \<Rightarrow> 'a option) \<Rightarrow> bool" where
  "needs_eq p \<longleftrightarrow> p [] = None \<and> (\<forall>c s. not_eq s \<longrightarrow> p (c # s) = None)"

definition sdp_line :: "jsstring \<Rightarrow> bool" where
  "sdp_line l \<longleftrightarrow> (\<exists>c b. l = c # 0x3D # b \<and> c \<noteq> 0x3D \<and> 0x3D \<notin> set b)"

definition text_lines :: "jsstring list \<Rightarrow> jsstring" where
  "text_lines ls = concat (map (\<lambda>l. l @ crlf) ls)"

lemma text_lines_simps [simp]:
  "text_lines [] = []" "text_lines (l # ls) = l @ crlf @ text_lines ls"
  "text_lines (ls @ ls') = text_lines ls @ text_lines ls'"
  by (simp_all add: text_lines_def)

lemma sdp_text_lines: "ls \<noteq> [] \<Longrightarrow> sdp_text ls = text_lines ls"
proof -
  have "ls \<noteq> [] \<Longrightarrow> join crlf ls @ crlf = text_lines ls"
    by (induction crlf ls rule: join.induct) simp_all
  then show "ls \<noteq> [] \<Longrightarrow> ?thesis" by (simp add: sdp_text_def)
qed

lemma not_eq_text: "\<forall>l\<in>set ls. sdp_line l \<Longrightarrow> not_eq r \<Longrightarrow> not_eq (text_lines ls @ r)"
  by (cases ls) (auto simp: sdp_line_def)

lemma find_skip:
  "needs_eq p \<Longrightarrow> 0x3D \<notin> set xs \<Longrightarrow> not_eq ys \<Longrightarrow> find_match p (xs @ ys) = find_match p ys"
proof (induction xs)
  case (Cons x xs)
  then have "p (x # xs @ ys) = None" by (simp add: needs_eq_def not_eq_append)
  with Cons show ?case by simp
qed simp

lemma find_skip_line:
  assumes "needs_eq p" "sdp_line l" "p (l @ crlf @ r) = None" "not_eq r"
  shows "find_match p (l @ crlf @ r) = find_match p r"
proof -
  obtain c b where l: "l = c # 0x3D # b" "0x3D \<notin> set b" using assms(2) by (auto simp: sdp_line_def)
  have "not_eq (b @ crlf @ r)" using l(2) by (simp add: not_eq_append)
  then have "p (0x3D # b @ crlf @ r) = None" using assms(1) by (simp add: needs_eq_def)
  then have "find_match p (l @ crlf @ r) = find_match p ((b @ crlf) @ r)" using assms(3) by (simp add: l(1))
  also have "\<dots> = find_match p r" using l(2) assms(1,4) by (intro find_skip) (auto simp: crlf_def)
  finally show ?thesis .
qed

lemma find_skip_lines:
  "needs_eq p \<Longrightarrow> \<forall>l\<in>set ls. sdp_line l \<and> (\<forall>r. p (l @ crlf @ r) = None) \<Longrightarrow> not_eq r \<Longrightarrow>
   find_match p (text_lines ls @ r) = find_match p r"
proof (induction ls)
  case (Cons l ls)
  then show ?case
    using find_skip_line [of p l "text_lines ls @ r"] not_eq_text [of ls r] by simp
qed simp

lemma find_here: "p s = Some x \<Longrightarrow> find_match p s = Some x"
  by (cases s) simp_all

lemma match_skip:
  "0x3D \<notin> set xs \<Longrightarrow> needs_eq cand_at \<Longrightarrow> not_eq ys \<Longrightarrow> match_all (xs @ ys) = match_all ys"
proof (induction xs)
  case (Cons x xs)
  then have "cand_at (x # xs @ ys) = None" by (simp add: needs_eq_def not_eq_append)
  with Cons show ?case by (subst match_all.simps) simp
qed simp

lemma match_skip_line:
  assumes "needs_eq cand_at" "sdp_line l" "cand_at (l @ crlf @ r) = None" "not_eq r"
  shows "match_all (l @ crlf @ r) = match_all r"
proof -
  obtain c b where l: "l = c # 0x3D # b" "0x3D \<notin> set b" using assms(2) by (auto simp: sdp_line_def)
  have "not_eq (b @ crlf @ r)" using l(2) by (simp add: not_eq_append)
  then have "cand_at (0x3D # b @ crlf @ r) = None" using assms(1) by (simp add: needs_eq_def)
  then have "match_all (0x3D # b @ crlf @ r) = match_all ((b @ crlf) @ r)" by (subst match_all.simps) simp
  moreover have "match_all (l @ crlf @ r) = match_all (0x3D # b @ crlf @ r)"
    using assms(3) by (subst match_all.simps) (simp add: l(1))
  moreover have "match_all ((b @ crlf) @ r) = match_all r"
    using l(2) assms(1,4) by (intro match_skip) (auto simp: crlf_def)
  ultimately show ?thesis by simp
qed

lemma match_skip_lines:
  "needs_eq cand_at \<Longrightarrow> \<forall>l\<in>set ls. sdp_line l \<and> (\<forall>r. cand_at (l @ crlf @ r) = None) \<Longrightarrow> not_eq r \<Longrightarrow>
   match_all (text_lines ls @ r) = match_all r"
proof (induction ls)
  case (Cons l ls)
  then show ?case
    using match_skip_line [of l "text_lines ls @ r"] not_eq_text [of ls r] by simp
qed simp

subsection \<open>The patterns\<close>

lemma lower_eq_sign: "lower_ascii 0x3D = lower_ascii c \<longleftrightarrow> c = 0x3D"
proof -
  have "lower_ascii c = 0x3D \<longleftrightarrow> c = 0x3D"
  proof (cases "0x41 \<le> c \<and> c \<le> 0x5A")
    case True
    then have "65 \<le> uint c" "uint c \<le> 90" by (simp_all add: word_le_def)
    then have "uint (c + 0x20) = uint c + 0x20" by (simp add: uint_word_ariths)
    moreover have "uint (0x3D :: 16 word) = 61" by simp
    ultimately show ?thesis
      using True \<open>65 \<le> uint c\<close> by (auto simp: lower_ascii_def)
  qed (auto simp: lower_ascii_def)
  then show ?thesis by (auto simp: lower_ascii_def)
qed

lemma lit_needs_eq: "not_eq s \<Longrightarrow> lit ci (a # 0x3D # l) (c # s) = None"
  by (cases s) (auto simp: lower_eq_sign)

lemma lit_needs_eq_Nil: "lit ci (a # 0x3D # l) [] = None"
  by simp

lemma needs_eq_capture: "js l = a # 0x3D # l' \<Longrightarrow> needs_eq (capture_at ci (js l) P)"
  by (simp add: needs_eq_def capture_at_def lit_needs_eq lit_needs_eq_Nil del: lit.simps)

lemma needs_eq_cand: "needs_eq cand_at"
proof -
  have "js ''a=candidate:'' = 0x61 # 0x3D # js ''candidate:''" by (simp add: js_def)
  then show ?thesis by (simp add: needs_eq_def cand_at_def lit_needs_eq lit_needs_eq_Nil del: lit.simps)
qed

lemma lit_same [simp]: "lit ci l (l @ s) = Some s"
  by (induction l) simp_all

lemma span1_stop: "list_all P x \<Longrightarrow> x \<noteq> [] \<Longrightarrow> \<not> P c \<Longrightarrow> span1 P (x @ c # s) = Some (x, c # s)"
  by (auto simp: span1_def takeWhile_append dropWhile_append list_all_iff)

lemma capture_line:
  "list_all P v \<Longrightarrow> v \<noteq> [] \<Longrightarrow> \<not> P 0x0D \<Longrightarrow> capture_at ci l P (l @ v @ crlf @ r) = Some v"
  using span1_stop [of P v "0x0D"] by (simp add: capture_at_def crlf_def)

lemma class_facts [simp]:
  "\<not> nonspace 0x0D" "\<not> nonspace 0x20" "\<not> fp_char 0x0D" "\<not> decimal 0x0D" "\<not> decimal 0x20"
  by (simp_all add: nonspace_def js_space_def fp_char_def hex_value_def decimal_def)

subsection \<open>The attributes of a description\<close>

record sdp_fields =
  f_type :: sdp_type
  f_setup :: jsstring
  f_ufrag :: jsstring
  f_pwd :: jsstring
  f_fp :: "nat list"
  f_cands :: "cand_match list"

text \<open>Characters of tokens and of addresses: none of the separators of the packed form.\<close>

definition token_char :: "16 word \<Rightarrow> bool" where
  "token_char c \<longleftrightarrow> nonspace c \<and> c \<noteq> 0x3D \<and> c \<noteq> 0x7E"

definition addr_char :: "16 word \<Rightarrow> bool" where
  "addr_char c \<longleftrightarrow> token_char c \<and> c \<noteq> 0x2C \<and> c \<noteq> 0x3B"

definition address :: "jsstring \<Rightarrow> bool" where
  "address s \<longleftrightarrow> s \<noteq> [] \<and> list_all addr_char s"

definition port_number :: "jsstring \<Rightarrow> bool" where
  "port_number s \<longleftrightarrow> s \<noteq> [] \<and> list_all decimal s"

definition wf_cand :: "cand_match \<Rightarrow> bool" where
  "wf_cand m \<longleftrightarrow> address (m_ip m) \<and> port_number (m_port m) \<and>
     (m_type m = js ''host'' \<and> m_raddr m = None \<and> m_rport m = None \<or>
      (m_type m = js ''srflx'' \<or> m_type m = js ''relay'') \<and>
      (case m_raddr m of None \<Rightarrow> False | Some a \<Rightarrow> address a) \<and>
      (case m_rport m of None \<Rightarrow> False | Some q \<Rightarrow> port_number q))"

definition wf_fields :: "sdp_fields \<Rightarrow> bool" where
  "wf_fields f \<longleftrightarrow> (f_type f = Offer \<or> f_type f = Answer) \<and>
     (f_setup f = js ''actpass'' \<or> f_setup f = js ''active'' \<or> f_setup f = js ''passive'') \<and>
     f_ufrag f \<noteq> [] \<and> list_all token_char (f_ufrag f) \<and> f_pwd f \<noteq> [] \<and> list_all token_char (f_pwd f) \<and>
     f_fp f \<noteq> [] \<and> (\<forall>b\<in>set (f_fp f). b < 256) \<and> list_all wf_cand (f_cands f) \<and> length (f_cands f) < 2 ^ 30"

definition has_attrs :: "description \<Rightarrow> sdp_fields \<Rightarrow> bool" where
  "has_attrs d f \<longleftrightarrow> d_type d = f_type f \<and>
     first_capture False ''a=setup:'' nonspace (d_sdp d) = f_setup f \<and>
     first_capture False ''a=ice-ufrag:'' nonspace (d_sdp d) = f_ufrag f \<and>
     first_capture False ''a=ice-pwd:'' nonspace (d_sdp d) = f_pwd f \<and>
     map parse_hex (split_on 0x3A (first_capture True ''a=fingerprint:sha-256 '' fp_char (d_sdp d))) = map Some (f_fp f) \<and>
     match_all (d_sdp d) = f_cands f"

definition packed_form :: "sdp_fields \<Rightarrow> jsstring" where
  "packed_form f = join [0x7E]
     [if f_type f = Offer then js ''o'' else js ''a'', pack_setup (f_setup f), f_ufrag f, f_pwd f,
      map (of_nat \<circ> b64u_char) (sextets (f_fp f)), join [0x3B] (map pack_candidate (f_cands f))]"

lemma packSdp_packed:
  assumes "has_attrs d f" "\<forall>b\<in>set (f_fp f). b < 256"
  shows "packSdp d = Inr (packed_form f)"
  using assms b64u_bytes [OF assms(2)]
  by (simp add: has_attrs_def packSdp_def Let_def fpToB64_def packed_form_def)

subsection \<open>Separators\<close>

lemma token_free: "list_all token_char s \<Longrightarrow> 0x3D \<notin> set s \<and> 0x7E \<notin> set s"
  by (auto simp: list_all_iff token_char_def)

lemma addr_token: "list_all addr_char s \<Longrightarrow> list_all token_char s"
  by (auto simp: list_all_iff addr_char_def)

lemma address_free: "address s \<Longrightarrow> 0x3D \<notin> set s \<and> 0x7E \<notin> set s \<and> 0x2C \<notin> set s \<and> 0x3B \<notin> set s"
  by (auto simp: address_def list_all_iff addr_char_def token_char_def)

lemma decimal_free: "list_all decimal s \<Longrightarrow> 0x3D \<notin> set s \<and> 0x7E \<notin> set s \<and> 0x2C \<notin> set s \<and> 0x3B \<notin> set s"
  by (auto simp: list_all_iff decimal_def)

lemma cand_parts:
  assumes "wf_cand m"
  obtains ps where "pack_candidate m = join [0x2C] ps" "ps \<noteq> []"
    "\<forall>p\<in>set ps. 0x3D \<notin> set p \<and> 0x7E \<notin> set p \<and> 0x2C \<notin> set p \<and> 0x3B \<notin> set p"
    "m_type m = js ''host'' \<Longrightarrow> ps = [m_ip m, m_port m]"
    "m_type m \<noteq> js ''host'' \<Longrightarrow> ps = [m_ip m, m_port m, [hd (m_type m)], the (m_raddr m), the (m_rport m)]"
proof (cases "m_type m = js ''host''")
  case True
  with assms show ?thesis
    by (intro that [of "[m_ip m, m_port m]"])
       (simp_all add: pack_candidate_def wf_cand_def port_number_def address_free decimal_free)
next
  case False
  with assms obtain a q where aq: "m_raddr m = Some a" "m_rport m = Some q" "address a" "port_number q"
    by (auto simp: wf_cand_def split: option.splits)
  with False assms show ?thesis
    by (intro that [of "[m_ip m, m_port m, [hd (m_type m)], a, q]"])
       (auto simp: pack_candidate_def wf_cand_def port_number_def address_free decimal_free show_opt_def js_def)
qed

lemma join_free: "c \<notin> set sep \<Longrightarrow> \<forall>p\<in>set ps. c \<notin> set p \<Longrightarrow> c \<notin> set (join sep ps)"
  using set_join [of sep ps] by auto

lemma pack_candidate_free:
  assumes "wf_cand m"
  shows "0x7E \<notin> set (pack_candidate m)" "0x3B \<notin> set (pack_candidate m)" "pack_candidate m \<noteq> []"
proof -
  obtain ps where ps: "pack_candidate m = join [0x2C] ps" 
    "\<forall>p\<in>set ps. 0x3D \<notin> set p \<and> 0x7E \<notin> set p \<and> 0x2C \<notin> set p \<and> 0x3B \<notin> set p"
    using cand_parts [OF assms] by metis
  then show "0x7E \<notin> set (pack_candidate m)" "0x3B \<notin> set (pack_candidate m)"
    by (simp_all add: join_free)
  show "pack_candidate m \<noteq> []" using assms by (auto simp: pack_candidate_def wf_cand_def address_def)
qed

lemma digits_decimal: "list_all decimal (map of_nat (digits n)) \<and> digits n \<noteq> []"
proof (induction n rule: digits.induct)
  case (1 n)
  have "decimal (of_nat (0x30 + d))" if "d < 10" for d :: nat
    using that unat_of_nat_16 [of "0x30 + d"] by (simp add: decimal_def del: of_nat_add)
  then show ?case
    using 1 by (subst (1 2) digits.simps) (auto simp del: of_nat_add)
qed

lemma show_int_decimal: "0 \<le> z \<Longrightarrow> list_all decimal (show_int z) \<and> show_int z \<noteq> []"
  using digits_decimal [of "nat z"] by (auto simp: show_int_def)

lemma decimal_nonspace: "decimal c \<Longrightarrow> nonspace c"
  by (auto simp: decimal_def nonspace_def js_space_def)

subsection \<open>A rebuilt candidate line is matched\<close>

lemma span1_literals:
  "span1 decimal (0x31 # 0x20 # s) = Some ([0x31], 0x20 # s)"
  "span1 nonspace (0x68 # 0x6F # 0x73 # 0x74 # 0x0D # s) = Some (js ''host'', 0x0D # s)"
  "span1 nonspace (0x73 # 0x72 # 0x66 # 0x6C # 0x78 # 0x20 # s) = Some (js ''srflx'', 0x20 # s)"
  "span1 nonspace (0x72 # 0x65 # 0x6C # 0x61 # 0x79 # 0x20 # s) = Some (js ''relay'', 0x20 # s)"
  by (simp_all add: span1_def decimal_def nonspace_def js_space_def js_def)

lemma literal_cons:
  "js ''a=candidate:'' = [0x61, 0x3D, 0x63, 0x61, 0x6E, 0x64, 0x69, 0x64, 0x61, 0x74, 0x65, 0x3A]"
  "js '' '' = [0x20]"
  "js '' 1 udp '' = [0x20, 0x31, 0x20, 0x75, 0x64, 0x70, 0x20]"
  "js '' udp '' = [0x20, 0x75, 0x64, 0x70, 0x20]"
  "js '' typ '' = [0x20, 0x74, 0x79, 0x70, 0x20]"
  "js '' typ host'' = [0x20, 0x74, 0x79, 0x70, 0x20, 0x68, 0x6F, 0x73, 0x74]"
  "js '' raddr '' = [0x20, 0x72, 0x61, 0x64, 0x64, 0x72, 0x20]"
  "js '' rport '' = [0x20, 0x72, 0x70, 0x6F, 0x72, 0x74, 0x20]"
  by (simp_all add: js_def)

lemma type_literals:
  "js ''srflx'' = [0x73, 0x72, 0x66, 0x6C, 0x78]" "js ''relay'' = [0x72, 0x65, 0x6C, 0x61, 0x79]"
  "js ''host'' = [0x68, 0x6F, 0x73, 0x74]"
  by (simp_all add: js_def)

lemma nonspace_intro:
  "list_all decimal s \<Longrightarrow> list_all nonspace s" "list_all addr_char s \<Longrightarrow> list_all nonspace s"
  "list_all token_char s \<Longrightarrow> list_all nonspace s"
  by (auto simp: list_all_iff decimal_nonspace addr_char_def token_char_def)

lemma cand_prefix:
  assumes "list_all decimal n" "n \<noteq> []" "list_all decimal prio" "prio \<noteq> []" "address ip" "port_number port"
  shows "cand_at (js ''a=candidate:'' @ n @ js '' 1 udp '' @ prio @ js '' '' @ ip @ js '' '' @ port @ js '' typ '' @ s)
    = obind (span1 nonspace s) (\<lambda>(typ, s). Some (let r = related_opt s in
         (\<lparr>m_ip = ip, m_port = port, m_type = typ, m_raddr = fst (fst r), m_rport = snd (fst r)\<rparr>, snd r)))"
proof -
  have "list_all nonspace n" "list_all nonspace ip" "ip \<noteq> []" "list_all decimal port" "port \<noteq> []"
    using assms by (simp_all add: address_def port_number_def nonspace_intro)
  with assms show ?thesis
    by (simp add: cand_at_def literal_cons span1_stop span1_literals)
qed

lemma related_crlf: "related_opt (crlf @ r) = ((None, None), crlf @ r)"
  by (simp add: related_opt_def related_at_def literal_cons crlf_def lower_ascii_def)

lemma related_line:
  assumes "address a" "port_number q"
  shows "related_opt (js '' raddr '' @ a @ js '' rport '' @ q @ crlf @ r) = ((Some a, Some q), crlf @ r)"
proof -
  have "list_all nonspace a" "a \<noteq> []" "list_all decimal q" "q \<noteq> []"
    using assms by (simp_all add: address_def port_number_def nonspace_intro)
  then show ?thesis
    by (simp add: related_opt_def related_at_def literal_cons crlf_def span1_stop)
qed

lemma expand_kind: "expand (Some [0x73]) = js ''srflx''" "expand (Some [0x72]) = js ''relay''"
  by (simp_all add: expand_def js_def)

lemma cand_at_line:
  assumes "wf_cand m" "i < 2 ^ 30"
  shows "cand_at (candidate_line i (pack_candidate m) @ crlf @ r) = Some (m, crlf @ r)"
proof -
  have ip: "address (m_ip m)" "port_number (m_port m)" using assms(1) by (simp_all add: wf_cand_def)
  have n: "list_all decimal (show_int (int i))" "show_int (int i) \<noteq> []"
    using show_int_decimal [of "int i"] by simp_all
  have prio: "list_all decimal (show_int (2122252543 - int i))" "show_int (2122252543 - int i) \<noteq> []"
      "list_all decimal (show_int (1686052607 - int i))" "show_int (1686052607 - int i) \<noteq> []"
    using assms(2) by (simp_all add: show_int_decimal)
  show ?thesis
  proof (cases "m_type m = js ''host''")
    case True
    then have none: "m_raddr m = None" "m_rport m = None" using assms(1) by (auto simp: wf_cand_def js_def)
    have "split_on 0x2C (pack_candidate m) = [m_ip m, m_port m]"
      using cand_parts [OF assms(1)] True split_on_join by metis
    then have "candidate_line i (pack_candidate m) @ crlf @ r
        = js ''a=candidate:'' @ show_int (int i) @ js '' 1 udp '' @ show_int (2122252543 - int i) @ js '' '' @ m_ip m
          @ js '' '' @ m_port m @ js '' typ '' @ (js ''host'' @ crlf @ r)"
      by (simp add: candidate_line_def nth_opt_def show_opt_def literal_cons type_literals)
    then have "cand_at (candidate_line i (pack_candidate m) @ crlf @ r)
        = obind (span1 nonspace (js ''host'' @ crlf @ r)) (\<lambda>(typ, s). Some (let r = related_opt s in
           (\<lparr>m_ip = m_ip m, m_port = m_port m, m_type = typ, m_raddr = fst (fst r), m_rport = snd (fst r)\<rparr>, snd r)))"
      using cand_prefix [OF n prio(1,2) ip] by simp
    moreover have "span1 nonspace (js ''host'' @ crlf @ r) = Some (js ''host'', crlf @ r)"
      by (simp add: type_literals crlf_def span1_literals)
    ultimately show ?thesis
      using True none by (cases m) (simp add: related_crlf)
  next
    case False
    with assms(1) obtain a q where aq: "m_raddr m = Some a" "m_rport m = Some q" "address a" "port_number q"
        and ty: "m_type m = js ''srflx'' \<or> m_type m = js ''relay''"
      by (auto simp: wf_cand_def split: option.splits)
    have "split_on 0x2C (pack_candidate m) = [m_ip m, m_port m, [hd (m_type m)], a, q]"
      using cand_parts [OF assms(1)] False split_on_join aq(1,2) by (metis option.sel)
    moreover have "expand (Some [hd (m_type m)]) = m_type m"
      using ty expand_kind by (auto simp: type_literals)
    ultimately have "candidate_line i (pack_candidate m) @ crlf @ r
        = js ''a=candidate:'' @ show_int (int i) @ js '' 1 udp '' @ show_int (1686052607 - int i) @ js '' '' @ m_ip m
          @ js '' '' @ m_port m @ js '' typ '' @ (m_type m @ js '' raddr '' @ a @ js '' rport '' @ q @ crlf @ r)"
      by (simp add: candidate_line_def nth_opt_def show_opt_def)
    then have "cand_at (candidate_line i (pack_candidate m) @ crlf @ r)
        = obind (span1 nonspace (m_type m @ js '' raddr '' @ a @ js '' rport '' @ q @ crlf @ r))
           (\<lambda>(typ, s). Some (let r = related_opt s in
           (\<lparr>m_ip = m_ip m, m_port = m_port m, m_type = typ, m_raddr = fst (fst r), m_rport = snd (fst r)\<rparr>, snd r)))"
      using cand_prefix [OF n prio(3,4) ip] by simp
    moreover have "span1 nonspace (m_type m @ js '' raddr '' @ s) = Some (m_type m, js '' raddr '' @ s)" for s
      using ty by (auto simp: type_literals literal_cons span1_literals)
    ultimately show ?thesis
      using aq(1,2) related_line [OF aq(3,4), of r] by (cases m) simp
  qed
qed

lemma match_cand_line:
  assumes "wf_cand m" "i < 2 ^ 30" "not_eq r"
  shows "match_all (candidate_line i (pack_candidate m) @ crlf @ r) = m # match_all r"
proof -
  have "match_all (candidate_line i (pack_candidate m) @ crlf @ r) = m # match_all (crlf @ r)"
    using cand_at_line [OF assms(1,2), of r] by (subst match_all.simps) simp
  also have "match_all (crlf @ r) = match_all r"
    using assms(3) by (intro match_skip needs_eq_cand) (simp_all add: crlf_def)
  finally show ?thesis .
qed

definition cand_lines :: "nat \<Rightarrow> cand_match list \<Rightarrow> jsstring list" where
  "cand_lines n ms = map (\<lambda>(i, m). candidate_line i (pack_candidate m)) (enumerate n ms)"

lemma candidate_line_start: "\<exists>s. candidate_line i c = 0x61 # 0x3D # s"
  by (simp add: candidate_line_def Let_def literal_cons)

lemma match_cand_lines:
  "list_all wf_cand ms \<Longrightarrow> n + length ms \<le> 2 ^ 30 \<Longrightarrow> match_all (text_lines (cand_lines n ms)) = ms"
proof (induction ms arbitrary: n)
  case Nil
  then show ?case by (simp add: cand_lines_def match_all.simps [of "[]"] cand_at_def literal_cons)
next
  case (Cons m ms)
  have "not_eq (text_lines (cand_lines (Suc n) ms))"
  proof (cases ms)
    case (Cons m' ms')
    then show ?thesis
      using candidate_line_start [of "Suc n" "pack_candidate m'"] by (auto simp: cand_lines_def)
  qed (simp add: cand_lines_def)
  with Cons match_cand_line [of m n "text_lines (cand_lines (Suc n) ms)"] show ?case
    by (simp add: cand_lines_def)
qed

subsection \<open>The rebuilt description\<close>

lemma enumerate_of_map: "enumerate n (map f xs) = map (map_prod id f) (enumerate n xs)"
  by (induction xs arbitrary: n) simp_all

lemma unpack_packed:
  assumes wf: "wf_fields f"
  shows "unpackSdp (packed_form f) = Inr \<lparr>d_type = f_type f,
    d_sdp = text_lines (sdp_lines (Some (f_ufrag f)) (Some (f_pwd f)) (fingerprint (f_fp f)) (f_setup f)
      (cand_lines 0 (f_cands f)))\<rparr>"
proof -
  note w = wf [unfolded wf_fields_def]
  let ?fp = "map (of_nat \<circ> b64u_char) (sextets (f_fp f)) :: jsstring"
  let ?ps = "[if f_type f = Offer then js ''o'' else js ''a'', pack_setup (f_setup f), f_ufrag f, f_pwd f,
      ?fp, join [0x3B] (map pack_candidate (f_cands f))]"
  have fp: "0x7E \<notin> set ?fp"
    using sextets_chars [of "f_fp f" "0x7E"] w by (auto simp: is_alnum_def)
  have cands: "\<forall>m\<in>set (f_cands f). wf_cand m" using w by (simp add: list_all_iff)
  then have "0x7E \<notin> set (join [0x3B] (map pack_candidate (f_cands f)))"
    using pack_candidate_free by (intro join_free) auto
  then have "\<forall>p\<in>set ?ps. 0x7E \<notin> set p"
    using fp w token_free by (auto simp: pack_setup_def js_def)
  then have split: "split_on 0x7E (packed_form f) = ?ps"
    unfolding packed_form_def by (intro split_on_join) simp_all
  have lines_eq: "(if join [0x3B] (map pack_candidate (f_cands f)) = [] then []
        else map (\<lambda>(i, c). candidate_line i c) (enumerate 0 (split_on 0x3B (join [0x3B] (map pack_candidate (f_cands f))))))
      = cand_lines 0 (f_cands f)"
  proof (cases "f_cands f")
    case (Cons m ms)
    have "join [0x3B] (map pack_candidate (f_cands f)) \<noteq> []"
      using pack_candidate_free(3) cands Cons by (cases ms) auto
    moreover have "split_on 0x3B (join [0x3B] (map pack_candidate (f_cands f))) = map pack_candidate (f_cands f)"
      using pack_candidate_free(2) cands Cons by (intro split_on_join) auto
    ultimately show ?thesis
      by (simp add: cand_lines_def enumerate_of_map case_prod_beta comp_def)
  qed (simp add: cand_lines_def)
  have setup_eq: "(if pack_setup (f_setup f) = js ''A'' then js ''actpass''
      else if pack_setup (f_setup f) = js ''a'' then js ''active'' else js ''passive'') = f_setup f"
    using w by (auto simp: pack_setup_def js_def)
  have ty_eq: "(if (if f_type f = Offer then js ''o'' else js ''a'') = js ''o'' then Offer else Answer) = f_type f"
    using w by (auto simp: js_def)
  have fpr: "b64ToFp ?fp = Inr (fingerprint (f_fp f))" using w b64ToFp_sextets by blast
  have nth: "nth_opt ?ps 0 = Some (?ps ! 0)" "nth_opt ?ps 1 = Some (?ps ! 1)" "nth_opt ?ps 2 = Some (?ps ! 2)"
      "nth_opt ?ps 3 = Some (?ps ! 3)" "nth_opt ?ps 4 = Some (?ps ! 4)" "nth_opt ?ps 5 = Some (?ps ! 5)"
    by (simp_all add: nth_opt_def)
  have at_eq: "?ps ! 0 = (if f_type f = Offer then js ''o'' else js ''a'')" "?ps ! 1 = pack_setup (f_setup f)"
      "?ps ! 2 = f_ufrag f" "?ps ! 3 = f_pwd f" "?ps ! 4 = ?fp"
      "?ps ! 5 = join [0x3B] (map pack_candidate (f_cands f))"
    by (simp_all add: numeral_eq_Suc)
  have ne: "sdp_lines (Some (f_ufrag f)) (Some (f_pwd f)) (fingerprint (f_fp f)) (f_setup f) (cand_lines 0 (f_cands f)) \<noteq> []"
    by (simp add: sdp_lines_def)
  show ?thesis
    unfolding unpackSdp_def split Let_def nth at_eq option.case option.inject fpr rbind_Inr lines_eq setup_eq ty_eq
      sdp_text_lines [OF ne] by (rule refl)
qed

lemma token_line: "list_all token_char v \<Longrightarrow> sdp_line (js ''a=ice-ufrag:'' @ v) \<and> sdp_line (js ''a=ice-pwd:'' @ v)"
  using token_free [of v] by (simp add: sdp_line_def js_def)

lemma fingerprint_chars:
  assumes "\<forall>b\<in>set bs. b < 256"
  shows "list_all fp_char (fingerprint bs)" "0x3D \<notin> set (fingerprint bs)" "bs \<noteq> [] \<Longrightarrow> fingerprint bs \<noteq> []"
proof -
  have "c \<in> set (fingerprint bs) \<Longrightarrow> c = 0x3A \<or> (\<exists>x\<in>set bs. c \<in> set (byte_hex x))" for c
    using set_join [of "[0x3A]" "map byte_hex bs"] by (auto simp: fingerprint_def)
  then have "c \<in> set (fingerprint bs) \<Longrightarrow> fp_char c" for c
    using byte_hex_chars assms by (fastforce simp: fp_char_def)
  then show fp: "list_all fp_char (fingerprint bs)" by (simp add: list_all_iff)
  show "0x3D \<notin> set (fingerprint bs)"
  proof
    assume "0x3D \<in> set (fingerprint bs)"
    with fp have "fp_char 0x3D" by (simp add: list_all_iff)
    then show False by (simp add: fp_char_def hex_value_def)
  qed
  assume "bs \<noteq> []"
  then obtain x xs where bs: "bs = x # xs" by (cases bs) auto
  with assms have "byte_hex x \<noteq> []" by (simp add: byte_hex_digits)
  then show "fingerprint bs \<noteq> []" by (cases xs) (simp_all add: fingerprint_def bs)
qed

lemma unpacked_attrs:
  assumes wf: "wf_fields f"
  shows "has_attrs \<lparr>d_type = f_type f,
    d_sdp = text_lines (sdp_lines (Some (f_ufrag f)) (Some (f_pwd f)) (fingerprint (f_fp f)) (f_setup f)
      (cand_lines 0 (f_cands f)))\<rparr> f"
proof -
  note w = wf [unfolded wf_fields_def]
  define C where "C = cand_lines 0 (f_cands f)"
  define A where "A = [js ''v=0'', js ''o=- 0 0 IN IP4 0.0.0.0'', js ''s=-'', js ''t=0 0'',
      js ''a=group:BUNDLE 0'', js ''a=msid-semantic: WMS'',
      js ''m=application 9 UDP/DTLS/SCTP webrtc-datachannel'', js ''c=IN IP4 0.0.0.0'']"
  define B where "B = [js ''a=mid:0'', js ''a=sctp-port:5000'', js ''a=max-message-size:262144'']"
  let ?u = "js ''a=ice-ufrag:'' @ f_ufrag f" and ?p = "js ''a=ice-pwd:'' @ f_pwd f"
  let ?fp = "js ''a=fingerprint:sha-256 '' @ fingerprint (f_fp f)" and ?s = "js ''a=setup:'' @ f_setup f"
  let ?text = "text_lines (sdp_lines (Some (f_ufrag f)) (Some (f_pwd f)) (fingerprint (f_fp f)) (f_setup f) C)"
  have text_eq: "?text = text_lines (A @ [?u] @ [?p] @ [?fp] @ [?s] @ B @ C)"
    by (simp add: sdp_lines_def A_def B_def show_opt_def)
  have fpc: "0x3D \<notin> set (fingerprint (f_fp f))" "list_all fp_char (fingerprint (f_fp f))" "fingerprint (f_fp f) \<noteq> []"
    using fingerprint_chars [of "f_fp f"] w by blast+
  have lines: "\<forall>l\<in>set A. sdp_line l" "\<forall>l\<in>set B. sdp_line l" "sdp_line ?u" "sdp_line ?p" "sdp_line ?fp" "sdp_line ?s"
    using w token_line fpc(1) by (auto simp: A_def B_def sdp_line_def js_def)
  have setup_chars: "list_all nonspace (f_setup f)" "f_setup f \<noteq> []"
    using w by (auto simp: js_def nonspace_def js_space_def)
  have heads: "not_eq (text_lines C)"
  proof (cases "f_cands f")
    case (Cons m ms)
    obtain t where "candidate_line 0 (pack_candidate m) = 0x61 # 0x3D # t"
      using candidate_line_start by blast
    with Cons show ?thesis by (simp add: C_def cand_lines_def)
  qed (simp add: C_def cand_lines_def)
  have not_eq_l: "sdp_line l \<Longrightarrow> not_eq (l @ r)" for l r by (auto simp: sdp_line_def)
  have captured: "first_capture ci k P ?text = v"
    if split: "A @ [?u] @ [?p] @ [?fp] @ [?s] @ B @ C = pre @ (js k @ v) # post"
      and p: "needs_eq (capture_at ci (js k) P)" and pre: "\<forall>l\<in>set pre. sdp_line l \<and> (\<forall>r. capture_at ci (js k) P (l @ crlf @ r) = None)"
      and v: "list_all P v" "v \<noteq> []" "\<not> P 0x0D" and l: "sdp_line (js k @ v)"
    for ci k P v pre post
  proof -
    have "?text = text_lines pre @ ((js k @ v) @ crlf @ text_lines post)"
      unfolding text_eq split by simp
    then have "find_match (capture_at ci (js k) P) ?text
        = find_match (capture_at ci (js k) P) ((js k @ v) @ crlf @ text_lines post)"
      using find_skip_lines [OF p pre not_eq_l [OF l]] by simp
    also have "\<dots> = Some v"
      using capture_line [OF v] by (intro find_here) simp
    finally show ?thesis by (simp add: first_capture_def)
  qed
  have ne: "needs_eq (capture_at ci (js ''a=setup:'') P)" "needs_eq (capture_at ci (js ''a=ice-ufrag:'') P)"
      "needs_eq (capture_at ci (js ''a=ice-pwd:'') P)" "needs_eq (capture_at ci (js ''a=fingerprint:sha-256 '') P)" for ci P
    by (rule needs_eq_capture, simp add: js_def)+
  have tok: "list_all nonspace (f_ufrag f)" "list_all nonspace (f_pwd f)"
    using w nonspace_intro by blast+
  have "first_capture False ''a=ice-ufrag:'' nonspace ?text = f_ufrag f"
    by (rule captured [where pre = A]) (use ne tok w lines in \<open>auto simp: A_def capture_at_def js_def\<close>)
  moreover have "first_capture False ''a=ice-pwd:'' nonspace ?text = f_pwd f"
    by (rule captured [where pre = "A @ [?u]"]) (use ne tok w lines in \<open>auto simp: A_def capture_at_def js_def\<close>)
  moreover have "first_capture True ''a=fingerprint:sha-256 '' fp_char ?text = fingerprint (f_fp f)"
    by (rule captured [where pre = "A @ [?u] @ [?p]"])
      (use ne fpc lines in \<open>auto simp: A_def capture_at_def js_def lower_ascii_def\<close>)
  moreover have "first_capture False ''a=setup:'' nonspace ?text = f_setup f"
    by (rule captured [where pre = "A @ [?u] @ [?p] @ [?fp]"])
      (use ne setup_chars lines in \<open>auto simp: A_def capture_at_def js_def\<close>)
  moreover have "match_all ?text = f_cands f"
  proof -
    have "\<forall>l\<in>set (A @ [?u] @ [?p] @ [?fp] @ [?s] @ B). sdp_line l \<and> (\<forall>r. cand_at (l @ crlf @ r) = None)"
      using lines by (auto simp: A_def B_def cand_at_def js_def lower_ascii_def)
    then have "match_all (text_lines (A @ [?u] @ [?p] @ [?fp] @ [?s] @ B) @ text_lines C) = match_all (text_lines C)"
      by (intro match_skip_lines needs_eq_cand heads)
    moreover have "match_all (text_lines C) = f_cands f"
      unfolding C_def using w by (intro match_cand_lines) simp_all
    ultimately show ?thesis unfolding text_eq by simp
  qed
  moreover have "map parse_hex (split_on 0x3A (fingerprint (f_fp f))) = map Some (f_fp f)"
  proof -
    have "split_on 0x3A (fingerprint (f_fp f)) = map byte_hex (f_fp f)"
      unfolding fingerprint_def using w colon_free by (intro split_on_join) auto
    with w show ?thesis by (simp add: parse_byte_hex)
  qed
  ultimately show ?thesis
    by (simp add: has_attrs_def C_def)
qed

interpretation sdp: codec packSdp unpackSdp packed_form has_attrs has_attrs wf_fields
  by unfold_locales (use packSdp_packed unpack_packed unpacked_attrs in \<open>auto simp: wf_fields_def\<close>)

text \<open>
  C3: the compact link keeps a description. For any description whose attributes, as the regular
  expressions of the code read them, are an ICE user fragment and password, a set-up role, a SHA-256
  fingerprint and host, srflx or relay candidates, \<open>packSdp\<close> succeeds and \<open>unpackSdp\<close> of the result
  is a description of the same type with the same attributes, candidates in order.
\<close>

theorem sdp_link_roundtrip:
  assumes "wf_fields f" "has_attrs d f"
  shows "\<exists>p d'. packSdp d = Inr p \<and> unpackSdp p = Inr d' \<and> has_attrs d' f"
  by (rule sdp.roundtrip [OF assms])

text \<open>A description in the order a browser writes it, and its attributes.\<close>

definition sample_fields :: sdp_fields where
  "sample_fields = \<lparr>f_type = Offer, f_setup = js ''actpass'', f_ufrag = js ''Ab3/'', f_pwd = js ''x+1'', f_fp = [0x0A, 0xFF],
     f_cands = [\<lparr>m_ip = js ''8.8.4.4'', m_port = js ''9'', m_type = js ''srflx'', m_raddr = Some (js ''::1''),
       m_rport = Some (js ''77'')\<rparr>]\<rparr>"

definition sample_description :: description where
  "sample_description = \<lparr>d_type = Offer, d_sdp = sdp_text [js ''v=0'',
     js ''a=candidate:4 1 UDP 16 8.8.4.4 9 typ srflx raddr ::1 rport 77 generation 0'',
     js ''a=ice-ufrag:Ab3/'', js ''a=ice-pwd:x+1'', js ''a=fingerprint:sha-256 0a:FF'', js ''a=setup:actpass'']\<rparr>"

lemma match_all_step:
  "match_all [] = []" "lit True (js ''a=candidate:'') (c # s) = None \<Longrightarrow> match_all (c # s) = match_all s"
  "cand_at (c # s) = Some (m, r) \<Longrightarrow> match_all (c # s) = m # match_all r"
  by (subst match_all.simps, simp add: cand_at_def literal_cons)+

lemma sample_lines: "d_sdp sample_description = text_lines [js ''v=0'',
     js ''a=candidate:4 1 UDP 16 8.8.4.4 9 typ srflx raddr ::1 rport 77 generation 0'',
     js ''a=ice-ufrag:Ab3/'', js ''a=ice-pwd:x+1'', js ''a=fingerprint:sha-256 0a:FF'', js ''a=setup:actpass'']"
  by (simp add: sample_description_def sdp_text_lines)

lemma sample_captures:
  "first_capture False ''a=setup:'' nonspace (d_sdp sample_description) = js ''actpass''"
  "first_capture False ''a=ice-ufrag:'' nonspace (d_sdp sample_description) = js ''Ab3/''"
  "first_capture False ''a=ice-pwd:'' nonspace (d_sdp sample_description) = js ''x+1''"
  "first_capture True ''a=fingerprint:sha-256 '' fp_char (d_sdp sample_description) = js ''0a:FF''"
  by (simp_all add: sample_lines js_def crlf_def first_capture_def capture_at_def span1_def lower_ascii_def
      nonspace_def js_space_def fp_char_def hex_value_def)

lemma sample_candidates: "match_all (d_sdp sample_description) = f_cands sample_fields"
  by (simp add: sample_lines js_def crlf_def match_all_step cand_at_def related_opt_def related_at_def span1_def
      lower_ascii_def nonspace_def js_space_def decimal_def sample_fields_def)

lemma sample_fingerprint: "map parse_hex (split_on 0x3A (js ''0a:FF'')) = map Some [0x0A, 0xFF]"
  by (simp add: js_def parse_hex_def hex_value_def)

theorem sdp_link_roundtrip_witness:
  "\<exists>p d'. packSdp sample_description = Inr p \<and> unpackSdp p = Inr d' \<and> has_attrs d' sample_fields"
proof (rule sdp_link_roundtrip)
  show "wf_fields sample_fields"
    by (simp add: wf_fields_def sample_fields_def js_def token_char_def nonspace_def js_space_def wf_cand_def
        address_def port_number_def addr_char_def decimal_def)
  show "has_attrs sample_description sample_fields"
    unfolding has_attrs_def sample_captures sample_candidates sample_fingerprint
    by (simp add: sample_fields_def sample_description_def)
qed

subsection \<open>What the packed form loses\<close>

text \<open>
  A description without a SHA-256 fingerprint is packed without an error: the missing fingerprint
  becomes the byte 0. A peer-reflexive candidate comes back as a host candidate, and a candidate
  without a related address carries the text \<open>undefined\<close>.
\<close>

lemma missing_fingerprint: "fpToB64 [] = Inr (js ''AA'') \<and> b64ToFp (js ''AA'') = Inr (js ''00'')"
proof -
  have aa: "js ''AA'' = map (of_nat \<circ> b64u_char) (sextets [0])"
    by (simp add: b64u_char_def b64_char_def js_def)
  have "fpToB64 [] = b64u (map Some [0])"
    by (simp add: fpToB64_def parse_hex_def b64u_def fromCharCode_def)
  also have "\<dots> = Inr (map (of_nat \<circ> b64u_char) (sextets [0]))"
    by (rule b64u_bytes) simp
  finally have fp: "fpToB64 [] = Inr (js ''AA'')" by (simp only: aa)
  have "b64ToFp (js ''AA'') = Inr (fingerprint [0])"
    unfolding aa by (rule b64ToFp_sextets) simp
  also have "fingerprint [0] = js ''00''"
    by (simp add: fingerprint_def byte_hex_digits hex_upper_def js_def)
  finally show ?thesis using fp by simp
qed

lemma prflx_becomes_host: "expand (Some [hd (js ''prflx'')]) = js ''host''"
  by (simp add: expand_def inherited_def js_def)

lemma missing_raddr:
  "pack_candidate \<lparr>m_ip = ip, m_port = port, m_type = js ''srflx'', m_raddr = None, m_rport = None\<rparr>
    = ip @ [0x2C] @ port @ [0x2C] @ js ''s'' @ [0x2C] @ js ''undefined'' @ [0x2C] @ js ''undefined''"
  by (simp add: pack_candidate_def show_opt_def js_def)

end
