(* ===== verification/Chat_Exchange.thy ===== *)
theory Chat_Exchange
  imports Chat_Manual Chat_SDP_Correct
begin

text \<open>
  What manual signaling guarantees: the wait ends with the first routable path, the links carry
  offers and answers to the other page, and what goes wrong stays silent.
\<close>

subsection \<open>The wait for candidates\<close>

definition gather_open :: "gathering \<Rightarrow> bool" where
  "gather_open g \<longleftrightarrow> g = \<lparr>g_listening = True, g_timer = True, g_returned = False\<rparr>"

definition gather_over :: "unit \<Rightarrow> gathering \<Rightarrow> bool" where
  "gather_over r g \<longleftrightarrow> g = \<lparr>g_listening = False, g_timer = False, g_returned = True\<rparr>"

definition ends_wait :: "gather_event \<Rightarrow> unit option" where
  "ends_wait e = (if routable e then Some () else None)"

interpretation wait: promise gather_step ends_wait gather_open gather_over
proof (unfold_locales, goal_cases)
  case (1 g e)
  then show ?case by (cases e) (auto simp: ends_wait_def gather_open_def split: option.splits if_splits)
next
  case (2 g e r)
  then show ?case
    by (cases e) (auto simp: ends_wait_def gather_open_def gather_over_def gather_finish_def split: option.splits if_splits)
next
  case (3 r g e)
  then show ?case by (cases e) (auto simp: gather_over_def split: option.splits)
qed

lemma gather_waiting:
  "fold gather_step evs \<lparr>g_listening = True, g_timer = True, g_returned = False\<rparr> =
    (if \<exists>e\<in>set evs. routable e then \<lparr>g_listening = False, g_timer = False, g_returned = True\<rparr>
     else \<lparr>g_listening = True, g_timer = True, g_returned = False\<rparr>)"
proof -
  have d: "first_decision ends_wait evs = (if \<exists>e\<in>set evs. routable e then Some () else None)"
    by (induction evs) (auto simp: ends_wait_def)
  show ?thesis using wait.first_wins [of "\<lparr>g_listening = True, g_timer = True, g_returned = False\<rparr>" evs]
    unfolding d by (simp add: gather_open_def gather_over_def split: if_splits)
qed

text \<open>
  C27: the wait for candidates never hangs and never leaks. It returns at once when gathering is
  complete; otherwise exactly when a public candidate, the end of gathering or the cap has come, and
  the cap always ends it. Once it has returned, no listener and no timer is left.
\<close>

theorem wait_returns:
  "(g_returned (waitIceComplete ready evs) \<longleftrightarrow> ready \<or> (\<exists>e\<in>set evs. routable e)) \<and>
   (CapReached \<in> set evs \<longrightarrow> g_returned (waitIceComplete ready evs)) \<and>
   (g_listening (waitIceComplete ready evs) \<longleftrightarrow> \<not> g_returned (waitIceComplete ready evs)) \<and>
   (g_timer (waitIceComplete ready evs) \<longleftrightarrow> \<not> g_returned (waitIceComplete ready evs))"
  unfolding waitIceComplete_def gather_waiting by (auto intro: bexI [of _ CapReached])

theorem wait_returns_witness:
  "g_returned (waitIceComplete False [StateChange False, CapReached, CapReached])"
proof -
  have "CapReached \<in> set [StateChange False, CapReached, CapReached]" by simp
  then show ?thesis using wait_returns [of False "[StateChange False, CapReached, CapReached]"] by blast
qed

subsection \<open>Packed descriptions travel in a link\<close>

text \<open>Printable ASCII except the percent sign.\<close>

definition plain_char :: "16 word \<Rightarrow> bool" where
  "plain_char c \<longleftrightarrow> 0x20 < unat c \<and> unat c < 0x7F \<and> unat c \<noteq> 0x25"

definition plain_cand :: "cand_match \<Rightarrow> bool" where
  "plain_cand m \<longleftrightarrow> list_all plain_char (m_ip m) \<and> (case m_raddr m of None \<Rightarrow> True | Some a \<Rightarrow> list_all plain_char a)"

definition plain_fields :: "sdp_fields \<Rightarrow> bool" where
  "plain_fields f \<longleftrightarrow> list_all plain_char (f_ufrag f) \<and> list_all plain_char (f_pwd f) \<and> list_all plain_cand (f_cands f)"

lemma plain_decimal: "list_all decimal s \<Longrightarrow> list_all plain_char s"
proof (rule list.pred_mono_strong, assumption)
  fix c assume "decimal c"
  then have "0x30 \<le> unat c" "unat c \<le> 0x39" by (simp_all add: decimal_def)
  then show "plain_char c" by (simp add: plain_char_def)
qed

lemma plain_join: "list_all plain_char sep \<Longrightarrow> list_all (list_all plain_char) ps \<Longrightarrow> list_all plain_char (join sep ps)"
  using set_join [of sep ps] by (fastforce simp: list_all_iff)

lemma sep_plain: "plain_char 0x2C" "plain_char 0x3B" "plain_char 0x7E" "plain_char 0x73" "plain_char 0x72"
  by (simp_all add: plain_char_def)

lemma plain_pack_candidate:
  assumes "wf_cand m" "plain_cand m"
  shows "list_all plain_char (pack_candidate m)"
proof -
  note ip = assms(2) [unfolded plain_cand_def, THEN conjunct1]
  have port: "list_all plain_char (m_port m)"
    using assms(1) plain_decimal by (simp add: wf_cand_def port_number_def)
  show ?thesis
  proof (cases "m_type m = js ''host''")
    case True
    then show ?thesis using ip port by (simp add: pack_candidate_def sep_plain)
  next
    case False
    then obtain a q where "m_raddr m = Some a" "m_rport m = Some q" "port_number q"
        "m_type m = js ''srflx'' \<or> m_type m = js ''relay''"
      using assms(1) by (auto simp: wf_cand_def split: option.splits)
    moreover from this have "list_all plain_char a" "list_all plain_char q"
      using assms(2) plain_decimal by (simp_all add: plain_cand_def port_number_def)
    moreover have "plain_char (hd (js ''srflx''))" "plain_char (hd (js ''relay''))"
      by (simp_all add: js_def sep_plain)
    ultimately show ?thesis
      using ip port False by (auto simp: pack_candidate_def sep_plain show_opt_def)
  qed
qed

lemma plain_sextets:
  assumes "\<forall>b\<in>set bs. b < 256"
  shows "list_all plain_char (map (of_nat \<circ> b64u_char) (sextets bs))"
proof -
  have "is_alnum (unat c) \<or> unat c = 0x2D \<or> unat c = 0x5F \<Longrightarrow> plain_char c" for c :: "16 word"
    by (auto simp: is_alnum_def plain_char_def)
  then show ?thesis using sextets_chars [OF assms] by (auto simp: list_all_iff)
qed

lemma plain_packed:
  assumes "wf_fields f" "plain_fields f"
  shows "list_all plain_char (packed_form f)"
proof -
  have "list_all plain_char (map (of_nat \<circ> b64u_char) (sextets (f_fp f)))"
    using plain_sextets assms(1) by (simp add: wf_fields_def)
  moreover have "list_all (list_all plain_char) (map pack_candidate (f_cands f))"
    using assms plain_pack_candidate by (auto simp: wf_fields_def plain_fields_def list_all_iff)
  then have "list_all plain_char (join [0x3B] (map pack_candidate (f_cands f)))"
    by (intro plain_join) (simp_all add: plain_char_def)
  moreover have "list_all plain_char (pack_setup s)" for s
    by (simp add: pack_setup_def js_def plain_char_def)
  ultimately show ?thesis
    using assms(2) unfolding packed_form_def
    by (intro plain_join) (auto simp: plain_fields_def js_def plain_char_def)
qed

lemma plain_ascii: "list_all plain_char s \<Longrightarrow> \<forall>c\<in>set s. unat c < 0x80"
  by (auto simp: list_all_iff plain_char_def)

lemma plain_well_formed: "list_all plain_char s \<Longrightarrow> well_formed s"
  using plain_ascii [of s] by (auto simp: well_formed_def code_points_ascii list_all_iff scalar_ascii)

lemma plain_decode: "list_all plain_char s \<Longrightarrow> decodeURIComponent s = Inr s"
proof (induction s)
  case (Cons c s)
  then have "unat c \<noteq> 0x25" by (simp add: plain_char_def)
  with Cons show ?case by simp
qed simp

lemma packed_form_nonempty: "packed_form f \<noteq> []"
  by (simp add: packed_form_def js_def)

lemma alnum_keys: "\<forall>c\<in>set (js ''offer''). is_alnum (unat c)" "\<forall>c\<in>set (js ''answer''). is_alnum (unat c)"
  "js ''offer'' \<noteq> []" "js ''answer'' \<noteq> []"
  by (simp_all add: js_def is_alnum_def)

text \<open>
  The two stages of a link: the packed description, and its URI encoding as the value of a parameter
  in the fragment.
\<close>

definition carried :: "sdp_fields \<Rightarrow> bool" where
  "carried f \<longleftrightarrow> wf_fields f \<and> plain_fields f"

definition uri_form :: "jsstring \<Rightarrow> jsstring" where
  "uri_form p = (case encodeURIComponent p of Inl e \<Rightarrow> [] | Inr e \<Rightarrow> e)"

definition read_param :: "jsstring \<Rightarrow> jsstring \<Rightarrow> jsstring result" where
  "read_param key e = (case search_get key (search_params (key @ js ''='' @ e)) of None \<Rightarrow> Inl TypeError | Some p \<Rightarrow> Inr p)"

lemma packed_codec: "codec packSdp remote_of packed_form has_attrs has_attrs carried"
proof
  show "packSdp d = Inr (packed_form f)" if "carried f" "has_attrs d f" for d f
    using that sdp.encodes by (simp add: carried_def)
  show "\<exists>d. remote_of (packed_form f) = Inr d \<and> has_attrs d f" if "carried f" for f
    using that sdp.decodes [of f] plain_decode [OF plain_packed] by (auto simp: carried_def remote_of_def)
qed

lemma uri_codec:
  assumes "\<forall>c\<in>set key. is_alnum (unat c)" "key \<noteq> []"
  shows "codec encodeURIComponent (read_param key) uri_form (\<lambda>b p. b = p) (\<lambda>b p. b = p) (list_all plain_char)"
proof
  have uf: "encodeURIComponent p = Inr (uri_form p)" if "list_all plain_char p" for p
    using encodeURIComponent_ok [OF plain_well_formed [OF that]] by (auto simp: uri_form_def)
  then show "encodeURIComponent x = Inr (uri_form p)" if "list_all plain_char p" "x = p" for x p using that by simp
  have eq: "js ''='' = [of_nat 0x3D]" by (simp add: js_def)
  show "\<exists>y. read_param key (uri_form p) = Inr y \<and> y = p" if "list_all plain_char p" for p
    using search_get_encoded [OF assms uf [OF that]] by (simp add: eq read_param_def)
qed

lemma link_stack:
  assumes "\<forall>c\<in>set key. is_alnum (unat c)" "key \<noteq> []"
  shows "codec_stack packSdp remote_of packed_form has_attrs has_attrs carried encodeURIComponent (read_param key)
    uri_form (list_all plain_char)"
  by (intro codec_stack.intro packed_codec uri_codec [OF assms] codec_stack_axioms.intro)
    (simp add: carried_def plain_packed)

interpretation offer_link: codec_stack packSdp remote_of packed_form has_attrs has_attrs carried encodeURIComponent
    "read_param (js ''offer'')" uri_form "list_all plain_char"
  by (rule link_stack [OF alnum_keys(1,3)])

interpretation answer_link: codec_stack packSdp remote_of packed_form has_attrs has_attrs carried encodeURIComponent
    "read_param (js ''answer'')" uri_form "list_all plain_char"
  by (rule link_stack [OF alnum_keys(2,4)])

lemma link_made:
  assumes "carried f" "has_attrs d f"
  shows "link_of l key d = Inr (linkFor l (js ''#'' @ key @ js ''='' @ uri_form (packed_form f)))"
  using offer_link.stack.encodes [OF assms] by (auto simp: link_of_def rbind_eq_Inr)

lemma read_param_get: "read_param key e = Inr p \<Longrightarrow> search_get key (search_params (key @ js ''='' @ e)) = Some p"
  by (simp add: read_param_def split: option.splits)

lemma link_read:
  assumes "carried f"
  shows "search_get (js ''offer'') (search_params (js ''offer'' @ js ''='' @ uri_form (packed_form f))) = Some (packed_form f)"
    "search_get (js ''answer'') (search_params (js ''answer'' @ js ''='' @ uri_form (packed_form f))) = Some (packed_form f)"
  using offer_link.inner.decodes [OF offer_link.form_valid [OF assms]]
    answer_link.inner.decodes [OF answer_link.form_valid [OF assms]]
  by (auto intro: read_param_get)

text \<open>The fragment of a URL, its number sign included.\<close>

definition fragment :: "jsstring \<Rightarrow> jsstring" where
  "fragment u = dropWhile (\<lambda>c. c \<noteq> 0x23) u"

lemma fragment_link:
  "0x23 \<notin> set (origin l @ pathname l) \<Longrightarrow> fragment (linkFor l (js ''#'' @ r)) = js ''#'' @ r"
  by (auto simp: fragment_def linkFor_def js_def dropWhile_append)

lemma starts_with_prefix: "starts_with p (p @ s)"
  by (induction p) simp_all

lemma offer_shown:
  assumes "offer_param l = None" "link_of l (js ''offer'') d = Inr link"
  shows "m_link (manual_run draw l [LocalSet None, Gathered d]) = Some link"
    "m_role (manual_run draw l [LocalSet None, Gathered d]) = Offerer"
    "m_phase (manual_run draw l [LocalSet None, Gathered d]) = Shown"
  using assms by (simp_all add: manual_run_def manual_start_def show_link_def)

lemma answer_shown:
  assumes "offer_param l = Some p" "remote_of p = Inr r" "link_of l (js ''answer'') d = Inr link"
  shows "m_link (manual_run draw l [RemoteApplied None, LocalSet None, Gathered d]) = Some link"
  using assms by (simp add: manual_run_def manual_start_def show_link_def)

text \<open>
  C2: an offer and its answer reach each other through the links. When the two descriptions have the
  attributes \<open>packSdp\<close> looks for, written in printable characters other than the percent sign, the
  offerer's page shows a link; a page opened on that link is in manual mode and applies a description
  with the attributes of the offer; the link it shows, pasted with any white space around it into
  the offerer's page, makes that page apply a description with the attributes of the answer.
\<close>

theorem manual_exchange:
  assumes "wf_fields fo" "plain_fields fo" "has_attrs offer fo"
    and "wf_fields fa" "plain_fields fa" "has_attrs answer fa"
    and "offer_param l = None" "0x23 \<notin> set (origin l @ pathname l)"
  shows "\<exists>link. m_link (manual_run draw l [LocalSet None, Gathered offer]) = Some link \<and>
    (\<forall>l'. hash l' = fragment link \<and> 0x23 \<notin> set (origin l' @ pathname l') \<longrightarrow> isManual l' \<and>
      (\<exists>d reply. m_remote (manual_start l') = Some d \<and> has_attrs d fo \<and>
         m_link (manual_run draw l' [RemoteApplied None, LocalSet None, Gathered answer]) = Some reply \<and>
         (\<forall>v. js_trim v = reply \<longrightarrow>
            (\<exists>d'. m_connecting (manual_run draw l [LocalSet None, Gathered offer, ApplyClick v]) = Some d' \<and>
              has_attrs d' fa))))"
proof -
  have fo: "carried fo" and fa: "carried fa" using assms by (simp_all add: carried_def)
  let ?e = "uri_form (packed_form fo)"
  note offered = offer_shown [OF assms(7) link_made [OF fo assms(3)]]
  note frag = fragment_link [OF assms(8)]
  have opened: "isManual l' \<and> offer_param l' = Some (packed_form fo)"
    if "hash l' = js ''#'' @ js ''offer'' @ js ''='' @ ?e" for l'
  proof -
    have "js ''#offer='' = js ''#'' @ js ''offer'' @ js ''=''" by (simp add: js_def)
    then have "isManual l'" using that starts_with_prefix [of "js ''#offer=''" ?e] by (simp add: isManual_def)
    moreover have "drop 1 (hash l') = js ''offer'' @ js ''='' @ ?e" by (simp add: that js_def)
    ultimately show ?thesis
      using link_read(1) [OF fo] packed_form_nonempty by (simp add: offer_param_def)
  qed
  obtain d where d: "remote_of (packed_form fo) = Inr d" "has_attrs d fo"
    using offer_link.outer.decodes [OF fo] by blast
  have replied: "\<exists>reply. m_link (manual_run draw l' [RemoteApplied None, LocalSet None, Gathered answer]) = Some reply \<and>
      (\<forall>v. js_trim v = reply \<longrightarrow> (\<exists>d'. m_connecting (manual_run draw l [LocalSet None, Gathered offer, ApplyClick v]) = Some d' \<and>
              has_attrs d' fa))"
    if "offer_param l' = Some (packed_form fo)" "0x23 \<notin> set (origin l' @ pathname l')" for l'
  proof -
    let ?a = "uri_form (packed_form fa)"
    note reply = link_made [OF fa assms(6), of l' "js ''answer''"]
    obtain d' where d': "remote_of (packed_form fa) = Inr d'" "has_attrs d' fa"
      using offer_link.outer.decodes [OF fa] by blast
    let ?r = "linkFor l' (js ''#'' @ js ''answer'' @ js ''='' @ ?a)"
    have "0x23 \<in> set ?r" by (simp add: linkFor_def js_def)
    moreover have "drop 1 (dropWhile (\<lambda>c. c \<noteq> 0x23) ?r) = js ''answer'' @ js ''='' @ ?a"
      using fragment_link [OF that(2), of "js ''answer'' @ js ''='' @ ?a"] by (simp add: fragment_def js_def)
    ultimately have "answer_param ?r = Some (packed_form fa)"
      using link_read(2) [OF fa] packed_form_nonempty by (simp add: answer_param_def)
    then have "m_connecting (manual_run draw l [LocalSet None, Gathered offer, ApplyClick v]) = Some d'" if "js_trim v = ?r" for v
      using that offered(2,3) d'(1) by (simp add: manual_run_def apply_answer_def)
    then show ?thesis using answer_shown [OF that(1) d(1) reply] d'(2) by blast
  qed
  show ?thesis
    using offered(1) opened replied d frag by (auto simp: manual_start_def)
qed

text \<open>Sample locations and attributes.\<close>

definition sample_location :: location where
  "sample_location = \<lparr>origin = js ''https://chat.example'', pathname = js ''/chat/'', search = js ''?manual'', hash = []\<rparr>"

definition answer_fields :: sdp_fields where
  "answer_fields = sample_fields\<lparr>f_type := Answer, f_setup := js ''active''\<rparr>"

lemma sample_ok:
  "wf_fields sample_fields" "plain_fields sample_fields" "wf_fields answer_fields" "plain_fields answer_fields"
  "offer_param sample_location = None" "0x23 \<notin> set (origin sample_location @ pathname sample_location)"
  by (simp_all add: answer_fields_def wf_fields_def sample_fields_def js_def token_char_def nonspace_def js_space_def wf_cand_def
      address_def port_number_def addr_char_def decimal_def plain_fields_def plain_cand_def plain_char_def
      offer_param_def sample_location_def search_params_def text_encode_def search_get_def)

theorem manual_exchange_witness:
  "\<exists>offer answer link reply d.
     m_link (manual_run (\<lambda>_. Inl None) sample_location [LocalSet None, Gathered offer]) = Some link \<and>
     m_remote (manual_start (sample_location\<lparr>hash := fragment link\<rparr>)) = Some d \<and> has_attrs d sample_fields \<and>
     m_link (manual_run (\<lambda>_. Inl None) (sample_location\<lparr>hash := fragment link\<rparr>)
       [RemoteApplied None, LocalSet None, Gathered answer]) = Some reply"
proof -
  let ?sdp = "\<lambda>f. \<lparr>d_type = f_type f, d_sdp = text_lines (sdp_lines (Some (f_ufrag f)) (Some (f_pwd f))
    (fingerprint (f_fp f)) (f_setup f) (cand_lines 0 (f_cands f)))\<rparr>"
  let ?offer = "?sdp sample_fields" and ?answer = "?sdp answer_fields"
  note manual_exchange [OF sample_ok(1,2) unpacked_attrs [OF sample_ok(1)] sample_ok(3,4)
      unpacked_attrs [OF sample_ok(3)] sample_ok(5,6), of "\<lambda>_. Inl None"]
  then obtain link where link: "m_link (manual_run (\<lambda>_. Inl None) sample_location [LocalSet None, Gathered ?offer]) = Some link"
    and opened: "hash l' = fragment link \<and> 0x23 \<notin> set (origin l' @ pathname l') \<Longrightarrow> \<exists>d reply.
       m_remote (manual_start l') = Some d \<and> has_attrs d sample_fields \<and>
       m_link (manual_run (\<lambda>_. Inl None) l' [RemoteApplied None, LocalSet None, Gathered ?answer]) = Some reply" for l'
    by blast
  let ?l = "sample_location\<lparr>hash := fragment link\<rparr>"
  have "hash ?l = fragment link \<and> 0x23 \<notin> set (origin ?l @ pathname ?l)" using sample_ok(6) by simp
  then show ?thesis using link opened [of ?l] by blast
qed

subsection \<open>The manual page\<close>

definition inert :: "jsstring \<Rightarrow> bool" where
  "inert e \<longleftrightarrow> (\<forall>c\<in>set e. (uri_unreserved (unat c) \<or> unat c = 0x25) \<and> unat c \<notin> {0x22, 0x26, 0x3C, 0x3E})"

definition shown_ok :: "(jsstring \<Rightarrow> jsstring option + jsstring) \<Rightarrow> location \<Rightarrow> manual \<Rightarrow> jsstring \<Rightarrow> bool" where
  "shown_ok draw l m link \<longleftrightarrow> (\<exists>key e d. key \<in> {js ''offer'', js ''answer''} \<and> inert e \<and>
     link = linkFor l (js ''#'' @ key @ js ''='' @ e) \<and> m_qr m = renderQR draw link \<and>
     m_body m = (case m_role m of Answerer \<Rightarrow> answer_body d link | Offerer \<Rightarrow> offer_body d link))"

definition manual_inv :: "(jsstring \<Rightarrow> jsstring option + jsstring) \<Rightarrow> location \<Rightarrow> manual \<Rightarrow> bool" where
  "manual_inv draw l m \<longleftrightarrow> (m_phase m = Shown \<longleftrightarrow> m_link m \<noteq> None) \<and>
     (case m_link m of None \<Rightarrow> m_body m = [] \<and> m_qr m = QrEmpty | Some link \<Rightarrow> shown_ok draw l m link) \<and>
     (m_connecting m \<noteq> None \<longrightarrow> m_role m = Offerer \<and> m_phase m = Shown) \<and>
     (m_role m = Answerer \<longleftrightarrow> offer_param l \<noteq> None)"

lemma inert_encoded: "encodeURIComponent p = Inr e \<Longrightarrow> inert e"
  using encodeURIComponent_units by (fastforce simp: inert_def uri_unreserved_def is_alnum_def)

lemma manual_inv_start: "manual_inv draw l (manual_start l)"
  by (auto simp: manual_inv_def manual_start_def Let_def split: option.splits sum.splits)

lemma link_of_inert:
  assumes "link_of l key d = Inr link"
  obtains e where "inert e" "link = linkFor l (js ''#'' @ key @ js ''='' @ e)"
  using assms inert_encoded by (auto simp: link_of_def rbind_eq_Inr)

lemma manual_inv_show:
  assumes "manual_inv draw l m" "m_phase m = Gathering"
  shows "manual_inv draw l (show_link draw l d m)"
proof (cases "link_of l (case m_role m of Answerer \<Rightarrow> js ''answer'' | Offerer \<Rightarrow> js ''offer'') d")
  case (Inl e)
  then show ?thesis using assms by (auto simp: manual_inv_def show_link_def split: option.splits)
next
  case (Inr link)
  obtain e where "inert e" "link = linkFor l (js ''#'' @ (case m_role m of Answerer \<Rightarrow> js ''answer'' | Offerer \<Rightarrow> js ''offer'') @ js ''='' @ e)"
    by (rule link_of_inert [OF Inr])
  then have "shown_ok draw l (show_link draw l d m) link"
    using Inr unfolding shown_ok_def
    by (intro exI [of _ "case m_role m of Answerer \<Rightarrow> js ''answer'' | Offerer \<Rightarrow> js ''offer''"] exI [of _ e] exI [of _ d])
       (auto simp: show_link_def split: role.splits)
  then show ?thesis using assms Inr by (auto simp: manual_inv_def show_link_def)
qed

lemma shown_ok_update [simp]: "shown_ok draw l (m\<lparr>m_connecting := c\<rparr>) = shown_ok draw l m"
  "shown_ok draw l (m\<lparr>m_status := t\<rparr>) = shown_ok draw l m" "shown_ok draw l (m\<lparr>m_phase := ph\<rparr>) = shown_ok draw l m"
  by (simp_all add: shown_ok_def fun_eq_iff)

lemma manual_inv_step: "manual_inv draw l m \<Longrightarrow> manual_inv draw l (manual_step draw l ev m)"
proof (cases ev)
  case (Gathered d)
  then show "manual_inv draw l m \<Longrightarrow> ?thesis" using manual_inv_show by simp
next
  case (ApplyClick v)
  then show "manual_inv draw l m \<Longrightarrow> ?thesis"
    by (cases "answer_param (js_trim v)"; cases "m_link m")
       (auto simp: manual_inv_def apply_answer_def split: sum.split)
next
  case (RemoteApplied err)
  then show "manual_inv draw l m \<Longrightarrow> ?thesis"
    by (cases err; cases "m_link m") (auto simp: manual_inv_def)
next
  case (LocalSet err)
  then show "manual_inv draw l m \<Longrightarrow> ?thesis"
    by (cases err; cases "m_link m") (auto simp: manual_inv_def)
next
  case (AnswerApplied err)
  then show "manual_inv draw l m \<Longrightarrow> ?thesis"
    by (cases "m_link m") (auto simp: manual_inv_def)
qed

text \<open>
  C20: what the manual page shows is inert. Whatever happens and whatever descriptions the connection
  has, there is a link exactly when the page is in its last phase; it is the page's own address with an
  \<open>offer\<close> or \<open>answer\<close> fragment whose value has no quote, ampersand or angle bracket, so the markup the
  page assigns is the fixed text around it; the QR code is the one of the same link; only the
  offerer's page ever applies a pasted answer.
\<close>

theorem manual_page_inert:
  "manual_inv draw l (manual_run draw l evs)"
proof -
  have "manual_inv draw l m \<Longrightarrow> manual_inv draw l (fold (manual_step draw l) evs m)" for m
    by (induction evs arbitrary: m) (simp_all add: manual_inv_step)
  then show ?thesis using manual_inv_start by (simp add: manual_run_def)
qed



text \<open>
  The parameter is decoded twice, by \<open>URLSearchParams\<close> and by \<open>decodeURIComponent\<close>: a percent sign
  in a packed description, as in the zone of a link-local address, breaks the link.
\<close>

lemma zone_breaks_link:
  assumes "0x25 \<notin> set a"
  shows "remote_of (a @ js ''%eth0'' @ r) = Inl URIError"
proof -
  have "decodeURIComponent (a @ js ''%eth0'' @ r) = Inl URIError"
    using assms
  proof (induction a)
    case Nil
    show ?case by (simp add: js_def hex_value_def)
  next
    case (Cons c a)
    then have "unat c \<noteq> 0x25" using word_unat_eq_iff [of c] by auto
    with Cons show ?case by simp
  qed
  then show ?thesis by (simp add: remote_of_def)
qed

end
