(* ===== verification/Glue_Memory.thy ===== *)
theory Glue_Memory
  imports JS_URI
begin

text \<open>
  The linear memory of the wasm module as \<open>pkg/iroh_webrtc_transport.js\<close> sees it: cached views that
  a growth of the memory detaches, strings passed in as UTF-8 and read back. Numbers that come from
  wasm are 32-bit words; \<open>x >>> 0\<close> is \<open>unat x\<close> and a bare \<open>x\<close> is \<open>sint x\<close>. The allocator is an
  export of the module and an argument here.
\<close>

subsection \<open>Memory and views\<close>

text \<open>A buffer has an identity: growing the memory detaches the old buffer and makes a new one.\<close>

record memory =
  bytes :: "nat \<Rightarrow> nat"
  mem_size :: nat
  buffer :: nat

record glue =
  mem :: memory
  cachedUint8ArrayMemory0 :: "nat option"
  cachedDataViewMemory0 :: "nat option"
  WASM_VECTOR_LEN :: nat
  numBytesDecoded :: int
  decoder_fed :: int

text \<open>
  A view is the buffer it was made for. Its \<open>byteLength\<close> is 0 when that buffer is detached, and
  writes through it are ignored then, as are writes beyond its end.
\<close>

definition byteLength :: "nat \<Rightarrow> memory \<Rightarrow> nat" where
  "byteLength view m = (if view = buffer m then mem_size m else 0)"

definition view_set :: "nat \<Rightarrow> nat \<Rightarrow> nat \<Rightarrow> memory \<Rightarrow> memory" where
  "view_set view i b m = (if i < byteLength view m then m\<lparr>bytes := (bytes m)(i := b)\<rparr> else m)"

fun view_set_all :: "nat \<Rightarrow> nat \<Rightarrow> nat list \<Rightarrow> memory \<Rightarrow> memory" where
  "view_set_all view i [] m = m"
| "view_set_all view i (b # bs) m = view_set_all view (Suc i) bs (view_set view i b m)"

definition getUint8ArrayMemory0 :: "glue \<Rightarrow> nat \<times> glue" where
  "getUint8ArrayMemory0 g =
     (case cachedUint8ArrayMemory0 g of
        Some v \<Rightarrow> if byteLength v (mem g) = 0
          then (buffer (mem g), g\<lparr>cachedUint8ArrayMemory0 := Some (buffer (mem g))\<rparr>) else (v, g)
      | None \<Rightarrow> (buffer (mem g), g\<lparr>cachedUint8ArrayMemory0 := Some (buffer (mem g))\<rparr>))"

text \<open>Whether or not the engine has \<open>detached\<close>, the test is that the view is not of the current buffer.\<close>

definition getDataViewMemory0 :: "glue \<Rightarrow> nat \<times> glue" where
  "getDataViewMemory0 g =
     (if cachedDataViewMemory0 g = Some (buffer (mem g)) then (buffer (mem g), g)
      else (buffer (mem g), g\<lparr>cachedDataViewMemory0 := Some (buffer (mem g))\<rparr>))"

text \<open>The range of \<open>subarray(b, e)\<close>: negative indices count from the end, and both are clipped.\<close>

definition clip :: "nat \<Rightarrow> int \<Rightarrow> nat" where
  "clip n i = nat (if i < 0 then max 0 (int n + i) else min i (int n))"

definition subarray :: "nat \<Rightarrow> int \<Rightarrow> int \<Rightarrow> memory \<Rightarrow> nat list" where
  "subarray view b e m = (let n = byteLength view m in map (bytes m) [clip n b ..< clip n e])"

definition getArrayU8FromWasm0 :: "32 word \<Rightarrow> 32 word \<Rightarrow> glue \<Rightarrow> nat list \<times> glue" where
  "getArrayU8FromWasm0 ptr len g =
     (case getUint8ArrayMemory0 g of (v, g') \<Rightarrow> (subarray v (int (unat ptr)) (int (unat ptr) + sint len) (mem g'), g'))"

text \<open>\<open>setInt32(i, x, true)\<close>: four bytes, little endian; out of bounds it throws.\<close>

definition setInt32 :: "int \<Rightarrow> 32 word \<Rightarrow> glue \<Rightarrow> glue result" where
  "setInt32 i x g = (case getDataViewMemory0 g of (v, g') \<Rightarrow>
     if i < 0 \<or> int (byteLength v (mem g')) < i + 4 then Inl RangeError
     else Inr (g'\<lparr>mem := view_set_all v (nat i)
       [unat x mod 256, unat x div 256 mod 256, unat x div 65536 mod 256, unat x div 16777216] (mem g')\<rparr>))"

subsection \<open>Strings into the module\<close>

text \<open>\<open>TextEncoder.encodeInto\<close> writes whole code points while they fit.\<close>

fun encode_into :: "nat \<Rightarrow> nat list \<Rightarrow> nat list" where
  "encode_into cap [] = []"
| "encode_into cap (c # cs) =
     (let u = utf8 (if scalar c then c else 0xFFFD) in
      if length u \<le> cap then u @ encode_into (cap - length u) cs else [])"

text \<open>The replacement where the engine has no \<open>encodeInto\<close>: what it reports and what it writes.\<close>

definition encodeInto_replacement :: "jsstring \<Rightarrow> nat \<Rightarrow> (nat \<times> nat \<times> nat list) result" where
  "encodeInto_replacement s cap = (let buf = text_encode s in
     if cap < length buf then Inl RangeError else Inr (length s, length buf, buf))"

text \<open>The loop over the ASCII prefix: how many units were copied, the rest of the string.\<close>

fun copy_ascii :: "nat \<Rightarrow> nat \<Rightarrow> nat \<Rightarrow> jsstring \<Rightarrow> memory \<Rightarrow> nat \<times> jsstring \<times> memory" where
  "copy_ascii view ptr offset [] m = (offset, [], m)"
| "copy_ascii view ptr offset (c # s) m =
     (if unat c > 0x7F then (offset, c # s, m)
      else copy_ascii view ptr (Suc offset) s (view_set view (ptr + offset) (unat c) m))"

type_synonym alloc = "nat \<Rightarrow> memory \<Rightarrow> 32 word \<times> memory"
type_synonym regrow = "32 word \<Rightarrow> nat \<Rightarrow> nat \<Rightarrow> memory \<Rightarrow> 32 word \<times> memory"

definition pass_encoded :: "jsstring \<Rightarrow> alloc \<Rightarrow> glue \<Rightarrow> (32 word \<times> glue) result" where
  "pass_encoded arg malloc g =
     (let buf = text_encode arg; (p, m) = malloc (length buf) (mem g);
          (v, g') = getUint8ArrayMemory0 (g\<lparr>mem := m\<rparr>)
      in if byteLength v (mem g') < unat p + length buf then Inl RangeError
         else Inr (p, g'\<lparr>mem := view_set_all v (unat p) buf (mem g'), WASM_VECTOR_LEN := length buf\<rparr>))"

definition pass_rest :: "jsstring \<Rightarrow> 32 word \<Rightarrow> nat \<Rightarrow> nat \<Rightarrow> regrow \<Rightarrow> glue \<Rightarrow> 32 word \<times> nat \<times> glue" where
  "pass_rest rest p len offset realloc g =
     (let len' = offset + length rest * 3; (p', m) = realloc p len len' (mem g);
          (v, g') = getUint8ArrayMemory0 (g\<lparr>mem := m\<rparr>);
          start = min (unat p' + offset) (byteLength v (mem g'));
          cap = min (unat p' + len') (byteLength v (mem g')) - start;
          out = encode_into cap (code_points rest);
          m' = view_set_all v start out (mem g');
          offset' = offset + length out;
          (p'', m'') = realloc p' len' offset' m'
      in (p'', offset', g'\<lparr>mem := m''\<rparr>))"

definition passStringToWasm0 :: "jsstring \<Rightarrow> alloc \<Rightarrow> regrow option \<Rightarrow> glue \<Rightarrow> (32 word \<times> glue) result" where
  "passStringToWasm0 arg malloc realloc g =
     (case realloc of
        None \<Rightarrow> pass_encoded arg malloc g
      | Some realloc' \<Rightarrow>
          let len = length arg; (p, m) = malloc len (mem g);
              (v, g1) = getUint8ArrayMemory0 (g\<lparr>mem := m\<rparr>);
              (offset, rest, m1) = copy_ascii v (unat p) 0 arg (mem g1);
              g2 = g1\<lparr>mem := m1\<rparr>
          in if offset \<noteq> len
             then (case pass_rest rest p len offset realloc' g2 of (p', offset', g3) \<Rightarrow> Inr (p', g3\<lparr>WASM_VECTOR_LEN := offset'\<rparr>))
             else Inr (p, g2\<lparr>WASM_VECTOR_LEN := offset\<rparr>))"

subsection \<open>Strings out of the module\<close>

definition MAX_SAFARI_DECODE_BYTES :: int where
  "MAX_SAFARI_DECODE_BYTES = 2146435072"

text \<open>A fatal decoder that keeps the byte order mark.\<close>

definition decode_fatal :: "nat list \<Rightarrow> jsstring result" where
  "decode_fatal bs = (let cs = utf8_decode bs in
     if None \<in> set cs then Inl TypeError else Inr (concat (map (\<lambda>c. units (the c)) cs)))"

text \<open>\<open>decoder_fed\<close> is what the present decoder has been given; a new decoder starts at 0.\<close>

definition decodeText :: "int \<Rightarrow> int \<Rightarrow> glue \<Rightarrow> jsstring result \<times> glue" where
  "decodeText ptr len g =
     (let g1 = g\<lparr>numBytesDecoded := numBytesDecoded g + len\<rparr>;
          g2 = (if MAX_SAFARI_DECODE_BYTES \<le> numBytesDecoded g1
                then g1\<lparr>decoder_fed := 0, numBytesDecoded := len\<rparr> else g1);
          (v, g3) = getUint8ArrayMemory0 g2;
          bs = subarray v ptr (ptr + len) (mem g3)
      in (decode_fatal bs, g3\<lparr>decoder_fed := decoder_fed g3 + int (length bs)\<rparr>))"

definition getStringFromWasm0 :: "32 word \<Rightarrow> 32 word \<Rightarrow> glue \<Rightarrow> jsstring result \<times> glue" where
  "getStringFromWasm0 ptr len g = decodeText (int (unat ptr)) (sint len) g"

end
