(* ===== verification/Glue_Objects.thy ===== *)
theory Glue_Objects
  imports Interfaces
begin

text \<open>
  The objects of \<open>pkg/iroh_webrtc_transport.js\<close> that own something of the wasm module: the exported
  classes, each with a pointer it gives back once, and the closures, reference counted. What the
  module is asked to do is recorded in the order of the calls.
\<close>

subsection \<open>Classes\<close>

datatype wclass = Chat | IntoUnderlyingByteSource | IntoUnderlyingSink | IntoUnderlyingSource

text \<open>A method passes the pointer on, or gives it away with \<open>__destroy_into_raw\<close>.\<close>

datatype passing = Lends | GivesAway

definition methods :: "wclass \<Rightarrow> (string \<times> passing) list" where
  "methods c = (case c of
       Chat \<Rightarrow> [(''send'', Lends)]
     | IntoUnderlyingByteSource \<Rightarrow>
         [(''autoAllocateChunkSize'', Lends), (''cancel'', GivesAway), (''pull'', Lends), (''start'', Lends), (''type'', Lends)]
     | IntoUnderlyingSink \<Rightarrow> [(''abort'', GivesAway), (''close'', GivesAway), (''write'', Lends)]
     | IntoUnderlyingSource \<Rightarrow> [(''cancel'', GivesAway), (''pull'', Lends)])"

text \<open>A call of the module: \<open>__wbg_..._free(ptr, flag)\<close>, or a method with the pointer passed.\<close>

datatype wcall = Free nat bool | Invoke string passing nat

record wobject =
  o_class :: wclass
  o_ptr :: nat
  o_registered :: bool
  o_calls :: "wcall list"

definition wrap :: "wclass \<Rightarrow> nat \<Rightarrow> wobject" where
  "wrap c ptr = \<lparr>o_class = c, o_ptr = ptr, o_registered = True, o_calls = []\<rparr>"

definition destroy_into_raw :: "wobject \<Rightarrow> nat \<times> wobject" where
  "destroy_into_raw obj = (o_ptr obj, obj\<lparr>o_ptr := 0, o_registered := False\<rparr>)"

definition free :: "wobject \<Rightarrow> wobject" where
  "free obj = (case destroy_into_raw obj of (ptr, obj') \<Rightarrow> obj'\<lparr>o_calls := o_calls obj' @ [Free ptr False]\<rparr>)"

definition call_method :: "string \<Rightarrow> wobject \<Rightarrow> wobject option" where
  "call_method m obj = (case map_of (methods (o_class obj)) m of
       None \<Rightarrow> None
     | Some Lends \<Rightarrow> Some (obj\<lparr>o_calls := o_calls obj @ [Invoke m Lends (o_ptr obj)]\<rparr>)
     | Some GivesAway \<Rightarrow> (case destroy_into_raw obj of (ptr, obj') \<Rightarrow>
         Some (obj'\<lparr>o_calls := o_calls obj' @ [Invoke m GivesAway ptr]\<rparr>)))"

text \<open>The finalizer runs, once, when a registered object has been collected; the registry keeps the pointer.\<close>

definition collect :: "nat \<Rightarrow> wobject \<Rightarrow> wobject" where
  "collect ptr obj = (if o_registered obj
     then obj\<lparr>o_registered := False, o_calls := o_calls obj @ [Free ptr True]\<rparr> else obj)"

datatype use = FreeUse | MethodUse string

fun use_object :: "use list \<Rightarrow> wobject \<Rightarrow> wobject option" where
  "use_object [] obj = Some obj"
| "use_object (FreeUse # us) obj = use_object us (free obj)"
| "use_object (MethodUse m # us) obj = (case call_method m obj of None \<Rightarrow> None | Some obj' \<Rightarrow> use_object us obj')"

text \<open>The life of an object: wrapped, used, and collected when nothing refers to it.\<close>

definition object_life :: "wclass \<Rightarrow> nat \<Rightarrow> use list \<Rightarrow> wobject option" where
  "object_life c ptr us = (case use_object us (wrap c ptr) of None \<Rightarrow> None | Some obj \<Rightarrow> Some (collect ptr obj))"

fun hands_over :: "nat \<Rightarrow> wcall \<Rightarrow> bool" where
  "hands_over p (Free q f) \<longleftrightarrow> p = q"
| "hands_over p (Invoke m w q) \<longleftrightarrow> w = GivesAway \<and> p = q"

fun passes :: "nat \<Rightarrow> wcall \<Rightarrow> bool" where
  "passes p (Free q f) \<longleftrightarrow> p = q"
| "passes p (Invoke m w q) \<longleftrightarrow> p = q"

subsection \<open>Closures\<close>

text \<open>
  The \<open>state\<close> of a closure and what surrounds it: the arguments of its running calls, innermost
  first, whether Rust has dropped its handle, whether the function has been collected, and the
  first arguments of \<open>__wbindgen_destroy_closure\<close>.
\<close>

record closure =
  a :: nat
  cnt :: int
  registered :: bool
  running :: "nat list"
  dropped :: bool
  collected :: bool
  destroyed :: "nat list"

definition closure_state :: "nat \<Rightarrow> closure" where
  "closure_state arg0 = \<lparr>a = arg0, cnt = 1, registered = True, running = [], dropped = False, collected = False, destroyed = []\<rparr>"

definition cb_unref :: "closure \<Rightarrow> closure" where
  "cb_unref c = (let c' = c\<lparr>cnt := cnt c - 1\<rparr> in
     if cnt c' = 0 then c'\<lparr>destroyed := destroyed c' @ [a c'], a := 0, registered := False\<rparr> else c')"

text \<open>\<open>real\<close> of \<open>makeClosure\<close>: up to the call of \<open>f\<close>, and the \<open>finally\<close> block.\<close>

definition enter :: "closure \<Rightarrow> closure" where
  "enter c = c\<lparr>cnt := cnt c + 1, running := a c # running c\<rparr>"

definition leave :: "closure \<Rightarrow> closure" where
  "leave c = cb_unref (c\<lparr>running := tl (running c)\<rparr>)"

text \<open>\<open>real\<close> of \<open>makeMutClosure\<close>: the pointer is taken out of the state while \<open>f\<close> runs.\<close>

definition enter_mut :: "closure \<Rightarrow> closure" where
  "enter_mut c = c\<lparr>cnt := cnt c + 1, running := a c # running c, a := 0\<rparr>"

definition leave_mut :: "closure \<Rightarrow> closure" where
  "leave_mut c = cb_unref (c\<lparr>a := hd (running c), running := tl (running c)\<rparr>)"

text \<open>The finalizer of \<open>CLOSURE_DTORS\<close>.\<close>

definition finalize :: "closure \<Rightarrow> closure" where
  "finalize c = (if registered c then c\<lparr>registered := False, destroyed := destroyed c @ [a c]\<rparr> else c)"

datatype closure_event = Call | Return | Drop | Collect

text \<open>
  Calls return in the order of a stack. Rust drops its handle at most once, which calls
  \<open>_wbg_cb_unref\<close>; the function is collected when it is not running.
\<close>

fun closure_step :: "bool \<Rightarrow> closure_event \<Rightarrow> closure \<Rightarrow> closure option" where
  "closure_step mut Call c = (if collected c then None else Some (if mut then enter_mut c else enter c))"
| "closure_step mut Return c = (if running c = [] then None else Some (if mut then leave_mut c else leave c))"
| "closure_step mut Drop c = (if dropped c \<or> collected c then None else Some ((cb_unref c)\<lparr>dropped := True\<rparr>))"
| "closure_step mut Collect c =
     (if collected c \<or> running c \<noteq> [] then None else Some ((finalize c)\<lparr>collected := True\<rparr>))"

definition closure_run :: "bool \<Rightarrow> closure_event list \<Rightarrow> closure \<Rightarrow> closure option" where
  "closure_run mut = run_events (closure_step mut)"

subsection \<open>The executor of \<open>new Promise\<close>\<close>

text \<open>
  \<open>__wbg_new_typed\<close>: \<open>cb0\<close> takes the pointer out of \<open>state0\<close> while it runs; when the constructor has
  returned the pointer is 0 for good.
\<close>

record executor =
  state0_a :: nat
  ex_running :: "nat list"
  ex_returned :: bool

datatype executor_event = ExCall | ExReturn | ExConstructed

definition new_typed :: "nat \<Rightarrow> executor" where
  "new_typed arg0 = \<lparr>state0_a = arg0, ex_running = [], ex_returned = False\<rparr>"

fun executor_step :: "executor_event \<Rightarrow> executor \<Rightarrow> executor option" where
  "executor_step ExCall x = Some (x\<lparr>ex_running := state0_a x # ex_running x, state0_a := 0\<rparr>)"
| "executor_step ExReturn x =
     (case ex_running x of [] \<Rightarrow> None | q # r \<Rightarrow> Some (x\<lparr>state0_a := q, ex_running := r\<rparr>))"
| "executor_step ExConstructed x =
     (if ex_returned x \<or> ex_running x \<noteq> [] then None else Some (x\<lparr>ex_returned := True, state0_a := 0\<rparr>))"

definition executor_run :: "executor_event list \<Rightarrow> executor \<Rightarrow> executor option" where
  "executor_run = run_events executor_step"

end
