(* ===== verification/Glue_Debug.thy ===== *)
theory Glue_Debug
  imports Chat_SDP
begin

text \<open>
  \<open>debugString\<close> of \<open>pkg/iroh_webrtc_transport.js\<close>, on what it reads of a value: its primitive text, its
  name or description, its elements, its \<open>toString\<close> tag, its JSON and what it has as an error.
  Arrays that contain themselves, on which the function does not return, are not values here.
\<close>

record error_view =
  err_name :: jsstring
  err_message :: jsstring
  err_stack :: jsstring

text \<open>
  \<open>Plain\<close> is a number, a boolean, \<open>null\<close> or \<open>undefined\<close> with its text; the JSON of an object is \<open>None\<close> when
  \<open>JSON.stringify\<close> throws.
\<close>

datatype observed =
    Plain jsstring
  | StringValue jsstring
  | SymbolValue "jsstring option"
  | FunctionValue "jsstring option"
  | ArrayValue "observed list"
  | ObjectValue jsstring "jsstring option" "error_view option"

text \<open>The capture of \<open>/\[object ([^\]]+)\]/\<close>.\<close>

definition object_tag_at :: "jsstring \<Rightarrow> jsstring option" where
  "object_tag_at s = obind (lit False (js ''[object '') s) (\<lambda>r.
     obind (span1 (\<lambda>c. c \<noteq> 0x5D) r) (\<lambda>(t, r'). if r' \<noteq> [] \<and> hd r' = 0x5D then Some t else None))"

definition className :: "jsstring \<Rightarrow> jsstring option" where
  "className s = find_match object_tag_at s"

definition debug_symbol :: "jsstring option \<Rightarrow> jsstring" where
  "debug_symbol d = (case d of None \<Rightarrow> js ''Symbol'' | Some t \<Rightarrow> js ''Symbol('' @ t @ js '')'')"

definition debug_function :: "jsstring option \<Rightarrow> jsstring" where
  "debug_function n = (case n of None \<Rightarrow> js ''Function''
     | Some t \<Rightarrow> if t \<noteq> [] then js ''Function('' @ t @ js '')'' else js ''Function'')"

definition debug_object :: "jsstring \<Rightarrow> jsstring option \<Rightarrow> error_view option \<Rightarrow> jsstring" where
  "debug_object tag json err =
     (case className tag of
        None \<Rightarrow> tag
      | Some c \<Rightarrow>
          if c = js ''Object'' then (case json of None \<Rightarrow> js ''Object'' | Some j \<Rightarrow> js ''Object('' @ j @ js '')'')
          else (case err of Some e \<Rightarrow> err_name e @ js '': '' @ err_message e @ [0x0A] @ err_stack e | None \<Rightarrow> c))"

text \<open>The loop over an array: the first element, then each further one after a comma.\<close>

fun debugString :: "observed \<Rightarrow> jsstring" and debug_rest :: "observed list \<Rightarrow> jsstring" where
  "debugString (Plain t) = t"
| "debugString (StringValue t) = js ''\"'' @ t @ js ''\"''"
| "debugString (SymbolValue d) = debug_symbol d"
| "debugString (FunctionValue n) = debug_function n"
| "debugString (ArrayValue vs) = js ''['' @ (case vs of [] \<Rightarrow> [] | v # vs' \<Rightarrow> debugString v @ debug_rest vs') @ js '']''"
| "debugString (ObjectValue tag json err) = debug_object tag json err"
| "debug_rest [] = []"
| "debug_rest (v # vs) = js '', '' @ debugString v @ debug_rest vs"

subsection \<open>Properties\<close>

lemma debug_join: "vs \<noteq> [] \<Longrightarrow> debugString (hd vs) @ debug_rest (tl vs) = join (js '', '') (map debugString vs)"
proof (induction vs)
  case (Cons v vs)
  then show ?case by (cases vs) simp_all
qed simp

text \<open>
  The debug text of an array is the texts of its elements, joined by commas, in brackets, and the
  one of an object with a plain tag is its class: \<open>Object\<close> with its JSON when there is one, an error
  with its name, message and stack, and any other class by its name.
\<close>

lemma debug_string_forms:
  assumes "t \<noteq> []" "0x5D \<notin> set t"
  shows "debugString (ArrayValue vs) = js ''['' @ join (js '', '') (map debugString vs) @ js '']'' \<and>
    debugString (ObjectValue (js ''[object '' @ t @ js '']'') json err) =
      (if t = js ''Object'' then (case json of None \<Rightarrow> js ''Object'' | Some j \<Rightarrow> js ''Object('' @ j @ js '')'')
       else (case err of None \<Rightarrow> t | Some e \<Rightarrow> err_name e @ js '': '' @ err_message e @ [0x0A] @ err_stack e))"
proof -
  have "takeWhile (\<lambda>c. c \<noteq> 0x5D) (t @ [0x5D]) = t" "dropWhile (\<lambda>c. c \<noteq> 0x5D) (t @ [0x5D]) = [0x5D]"
    using assms(2) by (auto simp: takeWhile_append dropWhile_append)
  then have "object_tag_at (js ''[object '' @ t @ js '']'') = Some t"
    using assms(1) by (simp add: object_tag_at_def js_def span1_def)
  then have "className (js ''[object '' @ t @ js '']'') = Some t"
    by (simp add: className_def js_def)
  moreover have "debugString (ArrayValue vs) = js ''['' @ join (js '', '') (map debugString vs) @ js '']''"
    using debug_join [of vs] by (cases vs) simp_all
  ultimately show ?thesis by (simp add: debug_object_def split: option.splits)
qed

end
