(* ===== verification/Glue_State.thy ===== *)
theory Glue_State
  imports Glue_Memory Glue_Objects Glue_Debug
begin

text \<open>
  The state of \<open>pkg/iroh_webrtc_transport.js\<close> and the primitives its imports are made of. The browser
  and the exports of the wasm module are an environment: operations on the whole state, since a
  call of either may come back into the glue. A thrown value is \<open>Inl\<close>.
\<close>

subsection \<open>Values\<close>

text \<open>\<open>Closure\<close> is a function \<open>makeClosure\<close> made, \<open>Instance\<close> an object of an exported class, \<open>MemView\<close> a byte
  array over the module's memory, \<open>EngineError\<close> an exception of the engine.\<close>

datatype jsval =
    Undefined
  | Null
  | Boolean bool
  | Num int
  | Str jsstring
  | Symbol nat
  | Func nat
  | Object nat
  | Closure nat
  | Executor nat
  | Instance nat
  | MemView nat nat
  | EngineError js_error

datatype typeof = TUndefined | TObject | TBoolean | TNumber | TString | TSymbol | TFunction

fun js_typeof :: "jsval \<Rightarrow> typeof" where
  "js_typeof Undefined = TUndefined"
| "js_typeof (Boolean b) = TBoolean"
| "js_typeof (Num n) = TNumber"
| "js_typeof (Str s) = TString"
| "js_typeof (Symbol n) = TSymbol"
| "js_typeof (Func n) = TFunction"
| "js_typeof (Closure n) = TFunction"
| "js_typeof (Executor n) = TFunction"
| "js_typeof v = TObject"

definition isLikeNone :: "jsval \<Rightarrow> bool" where
  "isLikeNone x \<longleftrightarrow> x = Undefined \<or> x = Null"

text \<open>\<open>b ? 1 : 0\<close> on a value.\<close>

fun truthy_val :: "jsval \<Rightarrow> bool" where
  "truthy_val Undefined \<longleftrightarrow> False"
| "truthy_val Null \<longleftrightarrow> False"
| "truthy_val (Boolean b) \<longleftrightarrow> b"
| "truthy_val (Num n) \<longleftrightarrow> n \<noteq> 0"
| "truthy_val (Str s) \<longleftrightarrow> s \<noteq> []"
| "truthy_val v \<longleftrightarrow> True"

subsection \<open>State and environment\<close>

text \<open>\<open>externs\<close> is the table of references the module holds; a closure is kept with its kind, second word and shim.\<close>

record 'w state =
  world :: 'w
  glue :: glue
  externs :: "jsval list"
  closures :: "(bool \<times> closure \<times> int \<times> string) list"
  executors :: "(executor \<times> int) list"
  instances :: "wobject list"
  exn_stored :: "nat list"

type_synonym ('w, 'a) io = "'w state \<Rightarrow> (jsval + 'a) \<times> 'w state"

record 'w env =
  e_get :: "jsval \<Rightarrow> string \<Rightarrow> ('w, jsval) io"
  e_index :: "jsval \<Rightarrow> int \<Rightarrow> ('w, jsval) io"
  e_set :: "jsval \<Rightarrow> string \<Rightarrow> jsval \<Rightarrow> ('w, unit) io"
  e_method :: "jsval \<Rightarrow> string \<Rightarrow> jsval list \<Rightarrow> ('w, jsval) io"
  e_call :: "string \<Rightarrow> jsval list \<Rightarrow> ('w, jsval) io"
  e_new :: "string \<Rightarrow> jsval list \<Rightarrow> ('w, jsval) io"
  e_instanceof :: "jsval \<Rightarrow> string \<Rightarrow> ('w, bool) io"
  e_global :: "string \<Rightarrow> jsval option"
  e_observe :: "jsval \<Rightarrow> ('w, observed) io"
  x_malloc :: alloc
  x_realloc :: regrow
  x_table_alloc :: "jsval list \<Rightarrow> nat \<times> jsval list"
  x_table_dealloc :: "nat \<Rightarrow> 'w state \<Rightarrow> 'w state"
  x_invoke :: "string \<Rightarrow> jsval list \<Rightarrow> ('w, jsval list) io"

definition io_return :: "'a \<Rightarrow> ('w, 'a) io" where
  "io_return x s = (Inr x, s)"

definition io_throw :: "jsval \<Rightarrow> ('w, 'a) io" where
  "io_throw e s = (Inl e, s)"

definition io_bind :: "('w, 'a) io \<Rightarrow> ('a \<Rightarrow> ('w, 'b) io) \<Rightarrow> ('w, 'b) io" where
  "io_bind m f s = (case m s of (Inl e, s') \<Rightarrow> (Inl e, s') | (Inr x, s') \<Rightarrow> f x s')"

definition io_result :: "'a result \<Rightarrow> ('w, 'a) io" where
  "io_result r = (case r of Inl e \<Rightarrow> io_throw (EngineError e) | Inr x \<Rightarrow> io_return x)"

subsection \<open>The table of references\<close>

definition addToExternrefTable0 :: "'w env \<Rightarrow> jsval \<Rightarrow> 'w state \<Rightarrow> nat \<times> 'w state" where
  "addToExternrefTable0 E obj s =
     (let (idx, table) = x_table_alloc E (externs s) in (idx, s\<lparr>externs := table[idx := obj]\<rparr>))"

definition takeFromExternrefTable0 :: "'w env \<Rightarrow> nat \<Rightarrow> 'w state \<Rightarrow> jsval \<times> 'w state" where
  "takeFromExternrefTable0 E idx s =
     ((if idx < length (externs s) then externs s ! idx else Undefined), x_table_dealloc E idx s)"

definition handleError :: "'w env \<Rightarrow> ('w, jsval) io \<Rightarrow> ('w, jsval) io" where
  "handleError E f s =
     (case f s of
        (Inr v, s') \<Rightarrow> (Inr v, s')
      | (Inl e, s') \<Rightarrow> (case addToExternrefTable0 E e s' of (idx, s'') \<Rightarrow>
          (Inr Undefined, s''\<lparr>exn_stored := exn_stored s'' @ [idx]\<rparr>)))"

definition init_externref_table :: "('w, jsval) io" where
  "init_externref_table s =
     (let offset = length (externs s); table = externs s @ replicate 4 Undefined in
      (Inr Undefined, s\<lparr>externs := table[0 := Undefined, offset := Undefined, offset + 1 := Null,
         offset + 2 := Boolean True, offset + 3 := Boolean False]\<rparr>))"

subsection \<open>Strings and memory\<close>

definition arg :: "jsval list \<Rightarrow> nat \<Rightarrow> jsval" where
  "arg args k = (if k < length args then args ! k else Undefined)"

definition i32 :: "jsval \<Rightarrow> 32 word" where
  "i32 v = (case v of Num n \<Rightarrow> word_of_int n | _ \<Rightarrow> 0)"

definition get_string :: "32 word \<Rightarrow> 32 word \<Rightarrow> ('w, jsstring) io" where
  "get_string ptr len s = (case getStringFromWasm0 ptr len (glue s) of (r, g) \<Rightarrow> io_result r (s\<lparr>glue := g\<rparr>))"

definition get_array :: "32 word \<Rightarrow> 32 word \<Rightarrow> ('w, jsval) io" where
  "get_array ptr len s =
     (case getUint8ArrayMemory0 (glue s) of (v, g) \<Rightarrow>
        let n = byteLength v (mem g); b = clip n (int (unat ptr)); e = clip n (int (unat ptr) + sint len)
        in (Inr (MemView b (e - b)), s\<lparr>glue := g\<rparr>))"

definition pass_string :: "'w env \<Rightarrow> jsstring \<Rightarrow> ('w, 32 word) io" where
  "pass_string E t s = (case passStringToWasm0 t (x_malloc E) (Some (x_realloc E)) (glue s) of
       Inl e \<Rightarrow> (Inl (EngineError e), s) | Inr (p, g) \<Rightarrow> (Inr p, s\<lparr>glue := g\<rparr>))"

definition set_int32 :: "int \<Rightarrow> 32 word \<Rightarrow> ('w, unit) io" where
  "set_int32 i x s = (case setInt32 i x (glue s) of
       Inl e \<Rightarrow> (Inl (EngineError e), s) | Inr g \<Rightarrow> (Inr (), s\<lparr>glue := g\<rparr>))"

text \<open>A pointer and a length stored for the caller: the length first, at the higher address.\<close>

definition store_ptr_len :: "jsval \<Rightarrow> 32 word \<Rightarrow> 32 word \<Rightarrow> ('w, jsval) io" where
  "store_ptr_len ret ptr len =
     io_bind (set_int32 (sint (i32 ret) + 4 * 1) len) (\<lambda>_.
     io_bind (set_int32 (sint (i32 ret) + 4 * 0) ptr) (\<lambda>_. io_return Undefined))"

definition vector_len :: "('w, 32 word) io" where
  "vector_len s = (Inr (of_nat (WASM_VECTOR_LEN (glue s))), s)"

definition return_string :: "'w env \<Rightarrow> jsval \<Rightarrow> jsstring \<Rightarrow> ('w, jsval) io" where
  "return_string E ret t =
     io_bind (pass_string E t) (\<lambda>ptr1. io_bind vector_len (\<lambda>len1. store_ptr_len ret ptr1 len1))"

subsection \<open>Closures and instances\<close>

definition makeMutClosure :: "jsval \<Rightarrow> jsval \<Rightarrow> string \<Rightarrow> ('w, jsval) io" where
  "makeMutClosure arg0 arg1 f s = (Inr (Closure (length (closures s))),
     s\<lparr>closures := closures s @ [(True, closure_state (unat (i32 arg0)), sint (i32 arg1), f)]\<rparr>)"

definition makeClosure :: "jsval \<Rightarrow> jsval \<Rightarrow> string \<Rightarrow> ('w, jsval) io" where
  "makeClosure arg0 arg1 f s = (Inr (Closure (length (closures s))),
     s\<lparr>closures := closures s @ [(False, closure_state (unat (i32 arg0)), sint (i32 arg1), f)]\<rparr>)"

definition update_closure :: "nat \<Rightarrow> (closure \<Rightarrow> closure) \<Rightarrow> 'w state \<Rightarrow> 'w state" where
  "update_closure n f s = (if n < length (closures s)
     then s\<lparr>closures := (closures s)[n := (case closures s ! n of (m, c, b, t) \<Rightarrow> (m, f c, b, t))]\<rparr> else s)"

text \<open>
  A shim calls the export of its name; the one for closures that may fail throws what the module left
  in the table.
\<close>

definition invoke_shim :: "'w env \<Rightarrow> string \<Rightarrow> jsval list \<Rightarrow> ('w, jsval) io" where
  "invoke_shim E f args = io_bind (x_invoke E f args) (\<lambda>ret.
     if f = ''invoke_JsValue_Result'' \<and> truthy_val (arg ret 1)
     then (\<lambda>s. case takeFromExternrefTable0 E (unat (i32 (arg ret 0))) s of (v, s') \<Rightarrow> io_throw v s')
     else io_return Undefined)"

text \<open>Calling a closure: enter, the shim, and the \<open>finally\<close> block whether or not it threw.\<close>

definition call_closure :: "'w env \<Rightarrow> nat \<Rightarrow> jsval list \<Rightarrow> ('w, jsval) io" where
  "call_closure E n args s =
     (if n < length (closures s) then
        (case closures s ! n of (mut, c, b, f) \<Rightarrow>
           let s1 = update_closure n (if mut then enter_mut else enter) s;
               (r, s2) = invoke_shim E f (Num (int (a c)) # Num b # args) s1
           in (r, update_closure n (if mut then leave_mut else leave) s2))
      else (Inl (EngineError TypeError), s))"

definition wrap_instance :: "wclass \<Rightarrow> jsval \<Rightarrow> ('w, jsval) io" where
  "wrap_instance c p s = (Inr (Instance (length (instances s))), s\<lparr>instances := instances s @ [wrap c (unat (i32 p))]\<rparr>)"

definition enum_value :: "string list \<Rightarrow> jsval \<Rightarrow> jsval" where
  "enum_value names v = (case v of Num n \<Rightarrow> if 0 \<le> n \<and> n < int (length names) then Str (js (names ! nat n)) else Undefined
     | _ \<Rightarrow> Undefined)"

definition class_prefix :: "wclass \<Rightarrow> string" where
  "class_prefix c = (case c of Chat \<Rightarrow> ''chat'' | IntoUnderlyingByteSource \<Rightarrow> ''intounderlyingbytesource''
     | IntoUnderlyingSink \<Rightarrow> ''intounderlyingsink'' | IntoUnderlyingSource \<Rightarrow> ''intounderlyingsource'')"

text \<open>A member of an instance: the pointer is read, given up if the method consumes it, and passed on.\<close>

definition instance_call :: "'w env \<Rightarrow> nat \<Rightarrow> string \<Rightarrow> jsval list \<Rightarrow> ('w, jsval) io" where
  "instance_call E n m args s =
     (if n < length (instances s) then
        (let obj = instances s ! n in
         case call_method m obj of
           None \<Rightarrow> (Inl (EngineError TypeError), s)
         | Some obj' \<Rightarrow> io_bind (x_invoke E (class_prefix (o_class obj) @ ''_'' @ m) (Num (int (o_ptr obj)) # args))
             (\<lambda>ret. io_return (arg ret 0)) (s\<lparr>instances := (instances s)[n := obj']\<rparr>))
      else (Inl (EngineError TypeError), s))"

definition instance_free :: "'w env \<Rightarrow> nat \<Rightarrow> ('w, jsval) io" where
  "instance_free E n s =
     (if n < length (instances s) then
        (let obj = instances s ! n in
         io_bind (x_invoke E (''__wbg_'' @ class_prefix (o_class obj) @ ''_free'') [Num (int (o_ptr obj)), Num 0])
           (\<lambda>_. io_return Undefined) (s\<lparr>instances := (instances s)[n := free obj]\<rparr>))
      else (Inl (EngineError TypeError), s))"

definition chat_send :: "'w env \<Rightarrow> nat \<Rightarrow> jsstring \<Rightarrow> ('w, jsval) io" where
  "chat_send E n t = io_bind (pass_string E t) (\<lambda>ptr0. io_bind vector_len (\<lambda>len0.
     io_bind (instance_call E n ''send'' [Num (uint ptr0), Num (uint len0)]) (\<lambda>_. io_return Undefined)))"

definition autoAllocateChunkSize :: "'w env \<Rightarrow> nat \<Rightarrow> ('w, jsval) io" where
  "autoAllocateChunkSize E n = io_bind (instance_call E n ''autoAllocateChunkSize'' []) (\<lambda>ret. io_return (Num (uint (i32 ret))))"

definition source_type :: "'w env \<Rightarrow> nat \<Rightarrow> ('w, jsval) io" where
  "source_type E n = io_bind (instance_call E n ''type'' []) (\<lambda>ret. io_return (enum_value [''bytes''] ret))"

definition start_chat :: "'w env \<Rightarrow> jsval \<Rightarrow> jsval \<Rightarrow> jsval \<Rightarrow> jsval \<Rightarrow> jsval \<Rightarrow> ('w, jsval) io" where
  "start_chat E dc my_seed remote_seed is_initiator on_message =
     io_bind (x_invoke E ''start_chat'' [dc, my_seed, remote_seed, is_initiator, on_message]) (\<lambda>ret. io_return (arg ret 0))"

subsection \<open>Promises\<close>

text \<open>\<open>new Promise(cb0)\<close>: the constructor may call the executor; afterwards its pointer is 0.\<close>

definition update_executor :: "nat \<Rightarrow> (executor \<Rightarrow> executor) \<Rightarrow> 'w state \<Rightarrow> 'w state" where
  "update_executor n f s = (if n < length (executors s)
     then s\<lparr>executors := (executors s)[n := (case executors s ! n of (x, b) \<Rightarrow> (f x, b))]\<rparr> else s)"

definition ex_event :: "executor_event \<Rightarrow> executor \<Rightarrow> executor" where
  "ex_event e x = (case executor_step e x of None \<Rightarrow> x | Some x' \<Rightarrow> x')"

definition call_executor :: "'w env \<Rightarrow> nat \<Rightarrow> jsval list \<Rightarrow> ('w, jsval) io" where
  "call_executor E n args s =
     (if n < length (executors s) then
        (case executors s ! n of (x, b) \<Rightarrow>
           let (r, s2) = invoke_shim E ''invoke_Function_Function''
                 (Num (int (state0_a x)) # Num b # args) (update_executor n (ex_event ExCall) s)
           in (r, update_executor n (ex_event ExReturn) s2))
      else (Inl (EngineError TypeError), s))"

definition new_promise :: "'w env \<Rightarrow> jsval list \<Rightarrow> ('w, jsval) io" where
  "new_promise E args s =
     (let n = length (executors s);
          (r, s2) = e_new E ''Promise'' [Executor n]
            (s\<lparr>executors := executors s @ [(new_typed (unat (i32 (arg args 0))), sint (i32 (arg args 1)))]\<rparr>)
      in (r, update_executor n (ex_event ExConstructed) s2))"

end
