(* ===== verification/Glue_Imports.thy ===== *)
theory Glue_Imports
  imports Glue_State
begin

text \<open>
  The imports of the wasm module, \<open>__wbg_get_imports\<close> of \<open>pkg/iroh_webrtc_transport.js\<close>: every entry
  of the table, in its order, with whether it is wrapped in \<open>handleError\<close>. An entry takes the
  arguments the module passes and runs on the state. The properties the module reads as strings are
  strings in the interfaces they belong to.
\<close>

type_synonym 'w import_fun = "jsval list \<Rightarrow> ('w, jsval) io"

subsection \<open>Arguments\<close>

definition ext :: "nat \<Rightarrow> 'w import_fun" where
  "ext k args = io_return (arg args k)"

definition u32 :: "nat \<Rightarrow> 'w import_fun" where
  "u32 k args = io_return (Num (uint (i32 (arg args k))))"

definition text_arg :: "nat \<Rightarrow> 'w import_fun" where
  "text_arg k args = io_bind (get_string (i32 (arg args k)) (i32 (arg args (k + 1)))) (\<lambda>t. io_return (Str t))"

definition bytes_arg :: "nat \<Rightarrow> 'w import_fun" where
  "bytes_arg k args = get_array (i32 (arg args k)) (i32 (arg args (k + 1)))"

definition enum_arg :: "string list \<Rightarrow> 'w import_fun" where
  "enum_arg names args = io_return (enum_value names (arg args 1))"

fun eval_args :: "'w import_fun list \<Rightarrow> jsval list \<Rightarrow> ('w, jsval list) io" where
  "eval_args [] args = io_return []"
| "eval_args (f # fs) args = io_bind (f args) (\<lambda>v. io_bind (eval_args fs args) (\<lambda>vs. io_return (v # vs)))"

subsection \<open>What an import does\<close>

definition get_prop :: "'w env \<Rightarrow> nat \<Rightarrow> string \<Rightarrow> 'w import_fun" where
  "get_prop E k p args = e_get E (arg args k) p"

definition index_prop :: "'w env \<Rightarrow> 'w import_fun" where
  "index_prop E args = e_index E (arg args 0) (uint (i32 (arg args 1)))"

definition set_prop :: "'w env \<Rightarrow> string \<Rightarrow> 'w import_fun \<Rightarrow> 'w import_fun" where
  "set_prop E p f args = io_bind (f args) (\<lambda>v. io_bind (e_set E (arg args 0) p v) (\<lambda>_. io_return Undefined))"

definition host_method :: "'w env \<Rightarrow> string \<Rightarrow> 'w import_fun list \<Rightarrow> 'w import_fun" where
  "host_method E m fs args = io_bind (eval_args fs args) (\<lambda>vs. e_method E (arg args 0) m vs)"

definition call_global :: "'w env \<Rightarrow> string \<Rightarrow> 'w import_fun list \<Rightarrow> 'w import_fun" where
  "call_global E g fs args = io_bind (eval_args fs args) (\<lambda>vs. e_call E g vs)"

definition construct :: "'w env \<Rightarrow> string \<Rightarrow> 'w import_fun list \<Rightarrow> 'w import_fun" where
  "construct E c fs args = io_bind (eval_args fs args) (\<lambda>vs. e_new E c vs)"

definition instance_of :: "'w env \<Rightarrow> string \<Rightarrow> 'w import_fun" where
  "instance_of E c args s = (case e_instanceof E (arg args 0) c s of
       (Inl e, s') \<Rightarrow> (Inr (Boolean False), s') | (Inr b, s') \<Rightarrow> (Inr (Boolean b), s'))"

definition global_or_null :: "'w env \<Rightarrow> string \<Rightarrow> 'w import_fun" where
  "global_or_null E g args = io_return (case e_global E g of None \<Rightarrow> Null | Some v \<Rightarrow> if v = Undefined then Null else v)"

definition module_require :: "'w env \<Rightarrow> 'w import_fun" where
  "module_require E args = (case e_global E ''module'' of
       None \<Rightarrow> io_throw (EngineError ReferenceError) | Some m \<Rightarrow> e_get E m ''require'')"

definition closure_arg :: "(jsval \<Rightarrow> jsval \<Rightarrow> string \<Rightarrow> ('w, jsval) io) \<Rightarrow> string \<Rightarrow> 'w import_fun" where
  "closure_arg mk f args = mk (arg args 0) (arg args 1) f"

definition wrap_arg :: "wclass \<Rightarrow> 'w import_fun" where
  "wrap_arg c args = wrap_instance c (arg args 0)"

definition typeof_is :: "typeof \<Rightarrow> 'w import_fun" where
  "typeof_is t args = io_return (Boolean (js_typeof (arg args 0) = t))"

definition is_object :: "'w import_fun" where
  "is_object args = io_return (Boolean (js_typeof (arg args 0) = TObject \<and> arg args 0 \<noteq> Null))"

definition is_undefined :: "'w import_fun" where
  "is_undefined args = io_return (Boolean (arg args 0 = Undefined))"

definition boolean_get :: "'w import_fun" where
  "boolean_get args = (let v = arg args 0; ret = (if js_typeof v = TBoolean then v else Undefined) in
     io_return (Num (if isLikeNone ret then 0xFFFFFF else if truthy_val ret then 1 else 0)))"

text \<open>When the value is no string the pointer is 0 and the length whatever the last string had.\<close>

definition string_get :: "'w env \<Rightarrow> 'w import_fun" where
  "string_get E args =
     io_bind (case arg args 1 of Str t \<Rightarrow> pass_string E t | _ \<Rightarrow> io_return 0) (\<lambda>ptr1.
     io_bind vector_len (\<lambda>len1. store_ptr_len (arg args 0) ptr1 len1))"

definition throw_error :: "'w env \<Rightarrow> 'w import_fun" where
  "throw_error E args = io_bind (text_arg 0 args) (\<lambda>t. io_bind (e_new E ''Error'' [t]) io_throw)"

definition debug_string :: "'w env \<Rightarrow> 'w import_fun" where
  "debug_string E args = io_bind (e_observe E (arg args 1)) (\<lambda>v. return_string E (arg args 0) (debugString v))"

definition cb_unref_arg :: "'w import_fun" where
  "cb_unref_arg args s = (case arg args 0 of
       Closure n \<Rightarrow> (Inr Undefined, update_closure n cb_unref s)
     | _ \<Rightarrow> (Inl (EngineError TypeError), s))"

definition set_call :: "'w env \<Rightarrow> 'w import_fun" where
  "set_call E args = io_bind (bytes_arg 0 args) (\<lambda>v.
     io_bind (e_call E ''Uint8Array.prototype.set.call'' [v, arg args 2]) (\<lambda>_. io_return Undefined))"

definition init_table :: "'w import_fun" where
  "init_table args = init_externref_table"

subsection \<open>What an import returns\<close>

definition ignore :: "'w import_fun \<Rightarrow> 'w import_fun" where
  "ignore f args = io_bind (f args) (\<lambda>_. io_return Undefined)"

definition opt_ref :: "'w env \<Rightarrow> 'w import_fun \<Rightarrow> 'w import_fun" where
  "opt_ref E f args = io_bind (f args) (\<lambda>ret.
     if isLikeNone ret then io_return (Num 0)
     else (\<lambda>s. case addToExternrefTable0 E ret s of (idx, s') \<Rightarrow> (Inr (Num (int idx)), s')))"

definition bool_out :: "'w import_fun \<Rightarrow> 'w import_fun" where
  "bool_out f args = io_bind (f args) (\<lambda>ret.
     io_return (Num (if isLikeNone ret then 0xFFFFFF else if truthy_val ret then 1 else 0)))"

definition string_out :: "'w env \<Rightarrow> 'w import_fun \<Rightarrow> 'w import_fun" where
  "string_out E f args = io_bind (f args) (\<lambda>ret.
     return_string E (arg args 0) (case ret of Str t \<Rightarrow> t | _ \<Rightarrow> []))"

subsection \<open>Enumerations\<close>

definition enum_BinaryType :: "string list" where "enum_BinaryType = [''blob'', ''arraybuffer'']"

definition enum_ReadableStreamType :: "string list" where "enum_ReadableStreamType = [''bytes'']"

definition enum_RequestCache :: "string list" where
  "enum_RequestCache = [''default'', ''no-store'', ''reload'', ''no-cache'', ''force-cache'', ''only-if-cached'']"

definition enum_RequestCredentials :: "string list" where "enum_RequestCredentials = [''omit'', ''same-origin'', ''include'']"

definition enum_RequestMode :: "string list" where "enum_RequestMode = [''same-origin'', ''no-cors'', ''cors'', ''navigate'']"

definition enum_RtcDataChannelType :: "string list" where "enum_RtcDataChannelType = [''arraybuffer'', ''blob'']"

subsection \<open>The table\<close>

definition imports_1 :: "'w env \<Rightarrow> (string \<times> bool \<times> 'w import_fun) list" where
  "imports_1 E = [
     (''__wbg___wbindgen_boolean_get_c9c83ebd41b34df3'', False, boolean_get),
     (''__wbg___wbindgen_debug_string_a57024b9c6e4a48b'', False, debug_string E),
     (''__wbg___wbindgen_is_function_5e4570eb24ffa122'', False, typeof_is TFunction),
     (''__wbg___wbindgen_is_object_a2790eb24c211ea0'', False, is_object),
     (''__wbg___wbindgen_is_string_e6f02f0ea5f20a32'', False, typeof_is TString),
     (''__wbg___wbindgen_is_undefined_6cff064c44e0d823'', False, is_undefined),
     (''__wbg___wbindgen_string_get_d154f1e671052120'', False, string_get E),
     (''__wbg___wbindgen_throw_bb96b2010945f0bc'', False, throw_error E),
     (''__wbg__wbg_cb_unref_be22cc64ae6946a0'', False, cb_unref_arg),
     (''__wbg_abort_1254fe4ac5695dc0'', False, ignore (host_method E ''abort'' [ext 1])),
     (''__wbg_abort_d8615b5857e112b3'', False, ignore (host_method E ''abort'' [])),
     (''__wbg_addEventListener_ca00806f9862a44e'', True, ignore (host_method E ''addEventListener'' [text_arg 1, ext 3])),
     (''__wbg_append_acad6a3f39a3e778'', True, ignore (host_method E ''append'' [text_arg 1, text_arg 3])),
     (''__wbg_body_eb2e7e7701fa47ae'', False, opt_ref E (get_prop E 0 ''body'')),
     (''__wbg_buffer_78291c0e094ccf99'', False, get_prop E 0 ''buffer''),
     (''__wbg_byobRequest_f8b1c89429b77545'', False, opt_ref E (get_prop E 0 ''byobRequest'')),
     (''__wbg_byteLength_336bc7d303511ba0'', False, get_prop E 0 ''byteLength''),
     (''__wbg_byteOffset_2b1d5b10453ce198'', False, get_prop E 0 ''byteOffset''),
     (''__wbg_call_35dba3c747ad7521'', True, host_method E ''call'' [ext 1, ext 2]),
     (''__wbg_cancel_9610ed0dbe990e64'', False, host_method E ''cancel'' []),
     (''__wbg_catch_8094577c3f159ad5'', False, host_method E ''catch'' [ext 1]),
     (''__wbg_chat_new'', False, wrap_arg Chat),
     (''__wbg_clearTimeout_333bba87532ab9d3'', False, call_global E ''clearTimeout'' [ext 0]),
     (''__wbg_clearTimeout_47a40e3be01ed7a3'', True, ignore (host_method E ''clearTimeout'' [ext 1])),
     (''__wbg_close_72f69f5f2de2bc73'', True, ignore (host_method E ''close'' [])),
     (''__wbg_close_97cdb44c3a7878f6'', True, ignore (host_method E ''close'' [])),
     (''__wbg_close_b857478a8d4c1a16'', True, ignore (host_method E ''close'' [])),
     (''__wbg_code_5c2c992d8a3afb58'', False, get_prop E 0 ''code''),
     (''__wbg_code_e2719108dd8e1fec'', False, get_prop E 0 ''code''),
     (''__wbg_crypto_38df2bab126b63dc'', False, get_prop E 0 ''crypto''),
     (''__wbg_data_57d8ce4eb5f0a433'', False, get_prop E 0 ''data''),
     (''__wbg_done_669171204c3dcae2'', False, get_prop E 0 ''done''),
     (''__wbg_enqueue_7d68a21eda78e72f'', True, ignore (host_method E ''enqueue'' [ext 1])),
     (''__wbg_entries_2c710161cbd65b89'', False, host_method E ''entries'' []),
     (''__wbg_fetch_074561c3e313c86f'', False, call_global E ''fetch'' [ext 0]),
     (''__wbg_fetch_d752d93f5b259503'', False, host_method E ''fetch'' [ext 1]),
     (''__wbg_getRandomValues_436a51d0629d84e1'', True, ignore (call_global E ''globalThis.crypto.getRandomValues'' [bytes_arg 0]))]"

definition imports_2 :: "'w env \<Rightarrow> (string \<times> bool \<times> 'w import_fun) list" where
  "imports_2 E = [
     (''__wbg_getRandomValues_c44a50d8cfdaebeb'', True, ignore (host_method E ''getRandomValues'' [ext 1])),
     (''__wbg_getReader_9facd4f899beac89'', True, host_method E ''getReader'' []),
     (''__wbg_get_971a0c45d172643f'', True, call_global E ''Reflect.get'' [ext 0, ext 1]),
     (''__wbg_get_c0c8f8d7da0c03dd'', False, index_prop E),
     (''__wbg_get_done_ce5b5691b59c07f2'', False, bool_out (get_prop E 0 ''done'')),
     (''__wbg_get_value_58309ba057b715e1'', False, get_prop E 0 ''value''),
     (''__wbg_has_b3a6e6d0d28295fa'', True, call_global E ''Reflect.has'' [ext 0, ext 1]),
     (''__wbg_headers_92567b07014384b9'', False, get_prop E 0 ''headers''),
     (''__wbg_instanceof_ArrayBuffer_993d02d2d254cad1'', False, instance_of E ''ArrayBuffer''),
     (''__wbg_instanceof_Blob_1d876a01ae2b8e98'', False, instance_of E ''Blob''),
     (''__wbg_instanceof_Response_8f49efbd4bfd76d6'', False, instance_of E ''Response''),
     (''__wbg_instanceof_Uint8Array_f935dbb0aa7cdeed'', False, instance_of E ''Uint8Array''),
     (''__wbg_isArray_6339f732981044bf'', False, call_global E ''Array.isArray'' [ext 0]),
     (''__wbg_length_36bd29c6848c2144'', False, get_prop E 0 ''length''),
     (''__wbg_message_88eda073e68b1d26'', False, string_out E (get_prop E 1 ''message'')),
     (''__wbg_msCrypto_bd5a034af96bcba6'', False, get_prop E 0 ''msCrypto''),
     (''__wbg_new_116be93542d39019'', False, construct E ''Array'' []),
     (''__wbg_new_20a7c62e9b30cbf7'', True, construct E ''WebSocket'' [text_arg 0]),
     (''__wbg_new_358857d90afd5a2d'', False, construct E ''Error'' [text_arg 0]),
     (''__wbg_new_77cc4f4f472aeb81'', False, construct E ''Uint8Array'' [ext 0]),
     (''__wbg_new_95039e162b0c4466'', True, construct E ''Headers'' []),
     (''__wbg_new_ebe3e0f6837f0879'', False, construct E ''Object'' []),
     (''__wbg_new_f5712de39c931ddf'', True, construct E ''AbortController'' []),
     (''__wbg_new_from_slice_3eea173078478cfe'', False, construct E ''Uint8Array'' [bytes_arg 0]),
     (''__wbg_new_typed_cceaf62d8d95e9f2'', False, new_promise E),
     (''__wbg_new_with_byte_offset_and_length_ff6e927f8d72f0c3'', False, construct E ''Uint8Array'' [ext 0, u32 1, u32 2])]"

definition imports_3 :: "'w env \<Rightarrow> (string \<times> bool \<times> 'w import_fun) list" where
  "imports_3 E = [
     (''__wbg_new_with_length_3ffc1c56427c525c'', False, construct E ''Uint8Array'' [u32 0]),
     (''__wbg_new_with_str_and_init_5a37d576dec75a86'', True, construct E ''Request'' [text_arg 0, ext 2]),
     (''__wbg_new_with_str_sequence_d8aa2988e9c191ed'', True, construct E ''WebSocket'' [text_arg 0, ext 2]),
     (''__wbg_next_42cf16ee0dafc9e2'', True, host_method E ''next'' []),
     (''__wbg_node_84ea875411254db1'', False, get_prop E 0 ''node''),
     (''__wbg_now_8b265300afd5f2b9'', False, call_global E ''Date.now'' []),
     (''__wbg_now_e7c6795a7f81e10f'', False, host_method E ''now'' []),
     (''__wbg_performance_3fcf6e32a7e1ed0a'', False, get_prop E 0 ''performance''),
     (''__wbg_process_44c7a14e11e9f69e'', False, get_prop E 0 ''process''),
     (''__wbg_protocol_cc4269417dba5225'', False, string_out E (get_prop E 1 ''protocol'')),
     (''__wbg_prototypesetcall_de8e0d9553586985'', False, set_call E),
     (''__wbg_push_adb0107829f02d75'', False, host_method E ''push'' [ext 1]),
     (''__wbg_queueMicrotask_ac694eae12e92dfb'', False, ignore (call_global E ''queueMicrotask'' [ext 0])),
     (''__wbg_queueMicrotask_be5fe34a8f4cad4d'', False, get_prop E 0 ''queueMicrotask''),
     (''__wbg_randomFillSync_6c25eac9869eb53c'', True, ignore (host_method E ''randomFillSync'' [ext 1])),
     (''__wbg_read_ae34ffedeb11f034'', False, host_method E ''read'' []),
     (''__wbg_readyState_fe79161592fd15ce'', False, get_prop E 0 ''readyState''),
     (''__wbg_reason_1460f6c833ca7671'', False, string_out E (get_prop E 1 ''reason'')),
     (''__wbg_releaseLock_f38d2d1c08212a8a'', False, ignore (host_method E ''releaseLock'' [])),
     (''__wbg_removeEventListener_cc1e2d6bee1b3672'', True, ignore (host_method E ''removeEventListener'' [text_arg 1, ext 3])),
     (''__wbg_require_b4edbdcf3e2a1ef0'', True, module_require E),
     (''__wbg_resolve_020f95d838c6ef25'', False, call_global E ''Promise.resolve'' [ext 0]),
     (''__wbg_respond_f88cbcebace42068'', True, ignore (host_method E ''respond'' [u32 1])),
     (''__wbg_send_5f7b516053d59f8d'', True, ignore (host_method E ''send'' [text_arg 1])),
     (''__wbg_send_76be66dda8ee844c'', True, ignore (host_method E ''send'' [bytes_arg 1])),
     (''__wbg_send_a889d89fcef225c9'', True, ignore (host_method E ''send'' [bytes_arg 1])),
     (''__wbg_setTimeout_3a808dd861dd3c12'', False, call_global E ''setTimeout'' [ext 0, ext 1]),
     (''__wbg_setTimeout_6613a51400c1bf9f'', True, host_method E ''setTimeout'' [ext 1, ext 2]),
     (''__wbg_set_b9b5b5cb7b495037'', False, ignore (host_method E ''set'' [bytes_arg 1])),
     (''__wbg_set_binaryType_b701908a03166a9f'', False, set_prop E ''binaryType'' (enum_arg enum_BinaryType)),
     (''__wbg_set_binaryType_b774e626b7afc559'', False, set_prop E ''binaryType'' (enum_arg enum_RtcDataChannelType)),
     (''__wbg_set_body_f301b68bff45f419'', False, set_prop E ''body'' (ext 1)),
     (''__wbg_set_cache_ab8f11813716fe29'', False, set_prop E ''cache'' (enum_arg enum_RequestCache)),
     (''__wbg_set_credentials_d7f3b810cbf191e1'', False, set_prop E ''credentials'' (enum_arg enum_RequestCredentials)),
     (''__wbg_set_handle_event_12334e0aadff29bf'', False, set_prop E ''handleEvent'' (ext 1)),
     (''__wbg_set_headers_805555608daf7f2a'', False, set_prop E ''headers'' (ext 1)),
     (''__wbg_set_method_cf2b992b9a610bc3'', False, set_prop E ''method'' (text_arg 1)),
     (''__wbg_set_mode_d6479dfd6696c8d3'', False, set_prop E ''mode'' (enum_arg enum_RequestMode)),
     (''__wbg_set_onclose_cb71fea4ad9056fc'', False, set_prop E ''onclose'' (ext 1)),
     (''__wbg_set_onerror_f1491b13f0fea022'', False, set_prop E ''onerror'' (ext 1))]"

definition imports_4 :: "'w env \<Rightarrow> (string \<times> bool \<times> 'w import_fun) list" where
  "imports_4 E = [
     (''__wbg_set_onmessage_065a797dafa9c437'', False, set_prop E ''onmessage'' (ext 1)),
     (''__wbg_set_onmessage_6776b45e3ae36994'', False, set_prop E ''onmessage'' (ext 1)),
     (''__wbg_set_onopen_b28699f3431204cf'', False, set_prop E ''onopen'' (ext 1)),
     (''__wbg_set_signal_115b9e9423652e66'', False, set_prop E ''signal'' (ext 1)),
     (''__wbg_signal_58449b7eb331d1be'', False, get_prop E 0 ''signal''),
     (''__wbg_static_accessor_GLOBAL_THIS_466428f93b4eaa76'', False, opt_ref E (global_or_null E ''globalThis'')),
     (''__wbg_static_accessor_GLOBAL_c7aea38d4de089bc'', False, opt_ref E (global_or_null E ''global'')),
     (''__wbg_static_accessor_SELF_42d4fae05e59267a'', False, opt_ref E (global_or_null E ''self'')),
     (''__wbg_static_accessor_WINDOW_e0db14a0eba6a812'', False, opt_ref E (global_or_null E ''window'')),
     (''__wbg_status_b0de02a07fd7d927'', False, get_prop E 0 ''status''),
     (''__wbg_subarray_a4cc58201c7359fd'', False, host_method E ''subarray'' [u32 1, u32 2]),
     (''__wbg_then_7026b513a94278a8'', False, host_method E ''then'' [ext 1]),
     (''__wbg_then_72819b8d4e081fb5'', False, host_method E ''then'' [ext 1, ext 2]),
     (''__wbg_url_06b6215cfc9b9fa5'', False, string_out E (get_prop E 1 ''url'')),
     (''__wbg_url_82c95d5d2e2ba977'', False, string_out E (get_prop E 1 ''url'')),
     (''__wbg_value_1e2369fab29b420e'', False, get_prop E 0 ''value''),
     (''__wbg_versions_276b2795b1c6a219'', False, get_prop E 0 ''versions''),
     (''__wbg_view_7685fe4b2845c5b6'', False, opt_ref E (get_prop E 0 ''view'')),
     (''__wbg_wasClean_76925d0fb8cf2795'', False, get_prop E 0 ''wasClean''),
     (''__wbindgen_cast_0000000000000001'', False, closure_arg makeMutClosure ''invoke_JsValue''),
     (''__wbindgen_cast_0000000000000002'', False, closure_arg makeMutClosure ''invoke_JsValue_Result''),
     (''__wbindgen_cast_0000000000000003'', False, closure_arg makeMutClosure ''invoke_CloseEvent''),
     (''__wbindgen_cast_0000000000000004'', False, closure_arg makeMutClosure ''invoke_MessageEvent''),
     (''__wbindgen_cast_0000000000000005'', False, closure_arg makeMutClosure ''invoke_unit''),
     (''__wbindgen_cast_0000000000000006'', False, closure_arg makeClosure ''invoke_unit_1''),
     (''__wbindgen_cast_0000000000000007'', False, closure_arg makeMutClosure ''invoke_unit_2''),
     (''__wbindgen_cast_0000000000000008'', False, bytes_arg 0),
     (''__wbindgen_cast_0000000000000009'', False, text_arg 0),
     (''__wbindgen_init_externref_table'', False, init_table)]"

definition import_table :: "'w env \<Rightarrow> (string \<times> bool \<times> 'w import_fun) list" where
  "import_table E = imports_1 E @ imports_2 E @ imports_3 E @ imports_4 E"

text \<open>A call of an import by the module.\<close>

definition run_entry :: "'w env \<Rightarrow> bool \<times> 'w import_fun \<Rightarrow> 'w import_fun" where
  "run_entry E e args = (case e of (wrapped, f) \<Rightarrow> if wrapped then handleError E (f args) else f args)"

definition run_import :: "'w env \<Rightarrow> string \<Rightarrow> 'w import_fun" where
  "run_import E name args = (case map_of (import_table E) name of
       None \<Rightarrow> io_throw (EngineError TypeError) | Some e \<Rightarrow> run_entry E e args)"

end
