(* ===== verification/Glue_Memory_Correct.thy ===== *)
theory Glue_Memory_Correct
  imports Glue_Memory
begin

text \<open>
  Strings cross into the module as their UTF-8 encoding, whatever the allocator does to the memory,
  and come back unchanged; no write goes to a detached buffer; the decoder is renewed in time.
\<close>

subsection \<open>What the allocator promises\<close>

definition region :: "memory \<Rightarrow> 32 word \<Rightarrow> nat \<Rightarrow> nat list" where
  "region m p n = map (bytes m) [unat p ..< unat p + n]"

definition allocates :: "alloc \<Rightarrow> bool" where
  "allocates malloc \<longleftrightarrow> (\<forall>n m. unat (fst (malloc n m)) + n \<le> mem_size (snd (malloc n m)))"

definition regrows :: "regrow \<Rightarrow> bool" where
  "regrows realloc \<longleftrightarrow> (\<forall>p old new m. unat p + old \<le> mem_size m \<longrightarrow>
     unat (fst (realloc p old new m)) + new \<le> mem_size (snd (realloc p old new m)) \<and>
     region (snd (realloc p old new m)) (fst (realloc p old new m)) (min old new) = region m p (min old new))"

subsection \<open>Views\<close>

lemma u8_current: "fst (getUint8ArrayMemory0 g) = buffer (mem g) \<or> byteLength (fst (getUint8ArrayMemory0 g)) (mem g) \<noteq> 0"
  by (auto simp: getUint8ArrayMemory0_def split: option.splits)

lemma u8_buffer [simp]: "byteLength (fst (getUint8ArrayMemory0 g)) (mem g) = mem_size (mem g)"
  using u8_current [of g] by (auto simp: byteLength_def split: if_splits)

lemma u8_mem [simp]: "mem (snd (getUint8ArrayMemory0 g)) = mem g"
  "numBytesDecoded (snd (getUint8ArrayMemory0 g)) = numBytesDecoded g"
  "decoder_fed (snd (getUint8ArrayMemory0 g)) = decoder_fed g"
  "WASM_VECTOR_LEN (snd (getUint8ArrayMemory0 g)) = WASM_VECTOR_LEN g"
  by (auto simp: getUint8ArrayMemory0_def split: option.splits)

lemma byteLength_bytes [simp]: "byteLength v (m\<lparr>bytes := x\<rparr>) = byteLength v m"
  by (simp add: byteLength_def)

lemma byteLength_set [simp]: "byteLength v (view_set w i b m) = byteLength v m"
  "mem_size (view_set w i b m) = mem_size m"
  by (simp_all add: byteLength_def view_set_def)

lemma byteLength_set_all [simp]: "byteLength v (view_set_all w i bs m) = byteLength v m"
  "mem_size (view_set_all w i bs m) = mem_size m"
  by (induction w i bs m rule: view_set_all.induct) simp_all

lemma bytes_set_all:
  "i + length bs \<le> byteLength v m \<Longrightarrow>
   bytes (view_set_all v i bs m) j = (if i \<le> j \<and> j < i + length bs then bs ! (j - i) else bytes m j)"
proof (induction v i bs m rule: view_set_all.induct)
  case (2 v i b bs m)
  then show ?case by (auto simp: view_set_def Suc_diff_le nth_Cons')
qed simp

lemma region_set_all:
  assumes "unat p + k + length bs \<le> byteLength v m"
  shows "region (view_set_all v (unat p + k) bs m) p (k + length bs) = region m p k @ bs"
  by (rule nth_equalityI) (auto simp: region_def bytes_set_all assms nth_append)

lemma length_region [simp]: "length (region m p n) = n"
  by (simp add: region_def)

subsection \<open>Encodings\<close>

definition enc :: "nat list \<Rightarrow> nat list" where
  "enc cs = concat (map (\<lambda>c. utf8 (if scalar c then c else 0xFFFD)) cs)"

lemma text_encode_enc: "text_encode s = enc (code_points s)"
  by (simp add: text_encode_def enc_def)

lemma encode_into_all: "length (enc cs) \<le> cap \<Longrightarrow> encode_into cap cs = enc cs"
  by (induction cap cs rule: encode_into.induct) (auto simp: enc_def Let_def)

lemma utf8_length: "length (utf8 c) \<le> (if c < 0x10000 then 3 else 4)"
  by (simp add: utf8_def)

lemma enc_bound: "length (enc (code_points s)) \<le> 3 * length s"
proof (induction s rule: code_points.induct)
  case (1 a b s)
  let ?c = "0x10000 + (unat a - 0xD800) * 0x400 + (unat b - 0xDC00)"
  have "length (utf8 (if scalar ?c then ?c else 0xFFFD)) \<le> 4"
    using utf8_length [of ?c] utf8_length [of "0xFFFD"] by (auto split: if_splits)
  moreover have "length (utf8 (if scalar (unat a) then unat a else 0xFFFD)) \<le> 3"
    using utf8_length [of "unat a"] utf8_length [of "0xFFFD"] unat_16 [of a] by auto
  ultimately show ?case using 1 by (auto simp: enc_def)
next
  case (2 a)
  show ?case using utf8_length [of "unat a"] utf8_length [of "0xFFFD"] unat_16 [of a] by (auto simp: enc_def)
qed (simp add: enc_def)

text \<open>With three bytes for every code unit the replacement of \<open>encodeInto\<close> does what the engine's does.\<close>

lemma replacement_agrees:
  assumes "3 * length s \<le> cap"
  shows "encodeInto_replacement s cap =
    Inr (length s, length (encode_into cap (code_points s)), encode_into cap (code_points s))"
  using assms enc_bound [of s] encode_into_all [of "code_points s" cap]
  by (simp add: encodeInto_replacement_def Let_def text_encode_enc)

lemma code_points_ascii_Cons: "unat c \<le> 0x7F \<Longrightarrow> code_points (c # s) = unat c # code_points s"
  by (cases s) (auto simp: high_surrogate_def)

lemma text_encode_prefix: "\<forall>c\<in>set a. unat c \<le> 0x7F \<Longrightarrow> text_encode (a @ s) = map unat a @ text_encode s"
proof (induction a)
  case (Cons c a)
  then have "scalar (unat c)" by (intro scalar_ascii) auto
  with Cons show ?case by (simp add: text_encode_def code_points_ascii_Cons utf8_def)
qed simp

lemma copy_ascii_spec:
  "unat p + offset + length s \<le> byteLength v m \<Longrightarrow>
   copy_ascii v (unat p) offset s m = (let a = takeWhile (\<lambda>c. unat c \<le> 0x7F) s in
     (offset + length a, dropWhile (\<lambda>c. unat c \<le> 0x7F) s, view_set_all v (unat p + offset) (map unat a) m))"
  by (induction v "unat p" offset s m rule: copy_ascii.induct) (auto simp: Let_def not_less)

subsection \<open>Strings\<close>

lemma pass_encoded_correct:
  assumes "allocates malloc"
  obtains p g' where "pass_encoded s malloc g = Inr (p, g')" "WASM_VECTOR_LEN g' = length (text_encode s)"
    "region (mem g') p (WASM_VECTOR_LEN g') = text_encode s" "unat p + WASM_VECTOR_LEN g' \<le> mem_size (mem g')"
proof -
  let ?n = "length (text_encode s)"
  obtain p m where pm: "malloc ?n (mem g) = (p, m)" by fastforce
  have fits: "unat p + ?n \<le> mem_size m" using assms [unfolded allocates_def, rule_format, of ?n "mem g"] pm by simp
  let ?v = "getUint8ArrayMemory0 (g\<lparr>mem := m\<rparr>)"
  let ?g = "(snd ?v)\<lparr>mem := view_set_all (fst ?v) (unat p) (text_encode s) m, WASM_VECTOR_LEN := ?n\<rparr>"
  have len: "byteLength (fst ?v) m = mem_size m" using u8_buffer [of "g\<lparr>mem := m\<rparr>"] by simp
  have "pass_encoded s malloc g = Inr (p, ?g)"
    using fits u8_mem(1) [of "g\<lparr>mem := m\<rparr>"] len
    by (simp add: pass_encoded_def pm Let_def case_prod_beta)
  moreover have "region (mem ?g) p ?n = text_encode s"
    using region_set_all [of p 0 "text_encode s" "fst ?v" m] fits len by (simp add: region_def)
  ultimately show ?thesis using fits by (intro that [of p ?g]) simp_all
qed

lemma pass_rest_correct:
  assumes re: "regrows realloc" and fits: "unat p + len \<le> mem_size (mem g)" "offset \<le> len"
    and before: "region (mem g) p offset = a"
  obtains p' g' where "pass_rest rest p len offset realloc g = (p', offset + length (text_encode rest), g')"
    "region (mem g') p' (offset + length (text_encode rest)) = a @ text_encode rest"
    "unat p' + (offset + length (text_encode rest)) \<le> mem_size (mem g')"
proof -
  let ?e = "text_encode rest"
  let ?len' = "offset + length rest * 3"
  obtain p1 m1 where r1: "realloc p len ?len' (mem g) = (p1, m1)" by fastforce
  have f1: "unat p1 + ?len' \<le> mem_size m1" and k1: "region m1 p1 (min len ?len') = region (mem g) p (min len ?len')"
    using re [unfolded regrows_def, rule_format, OF fits(1), of ?len'] r1 by auto
  have pre1: "region m1 p1 offset = a"
  proof -
    have "take offset (region m1 p1 (min len ?len')) = take offset (region (mem g) p (min len ?len'))" using k1 by simp
    then show ?thesis using before fits(2) by (simp add: region_def take_map)
  qed
  let ?v = "getUint8ArrayMemory0 (g\<lparr>mem := m1\<rparr>)"
  have len: "byteLength (fst ?v) m1 = mem_size m1" using u8_buffer [of "g\<lparr>mem := m1\<rparr>"] by simp
  have bound: "length ?e \<le> length rest * 3" using enc_bound [of rest] by (simp add: text_encode_enc)
  have out: "encode_into (length rest * 3) (code_points rest) = ?e"
    using encode_into_all bound by (simp add: text_encode_enc)
  let ?m2 = "view_set_all (fst ?v) (unat p1 + offset) ?e m1"
  have pre2: "region ?m2 p1 (offset + length ?e) = a @ ?e"
    using region_set_all [of p1 offset ?e "fst ?v" m1] f1 len bound pre1 by simp
  obtain p3 m3 where r3: "realloc p1 ?len' (offset + length ?e) ?m2 = (p3, m3)" by fastforce
  have "unat p1 + ?len' \<le> mem_size ?m2" using f1 by simp
  from re [unfolded regrows_def, rule_format, OF this, of "offset + length ?e"] r3
  have f3: "unat p3 + (offset + length ?e) \<le> mem_size m3"
    and k3: "region m3 p3 (min ?len' (offset + length ?e)) = region ?m2 p1 (min ?len' (offset + length ?e))"
    by auto
  then have pre3: "region m3 p3 (offset + length ?e) = a @ ?e"
    using bound pre2 by (simp add: min_absorb2)
  have "pass_rest rest p len offset realloc g = (p3, offset + length ?e, (snd ?v)\<lparr>mem := m3\<rparr>)"
    using u8_mem(1) [of "g\<lparr>mem := m1\<rparr>"] f1 len out r3
    by (simp add: pass_rest_def r1 Let_def case_prod_beta min_absorb1)
  then show ?thesis using pre3 f3 by (intro that [of p3 "(snd ?v)\<lparr>mem := m3\<rparr>"]) simp_all
qed

lemma pass_string_correct:
  assumes "allocates malloc" "\<forall>r. realloc = Some r \<longrightarrow> regrows r"
  obtains p g' where "passStringToWasm0 s malloc realloc g = Inr (p, g')"
    "region (mem g') p (WASM_VECTOR_LEN g') = text_encode s" "WASM_VECTOR_LEN g' = length (text_encode s)"
    "unat p + WASM_VECTOR_LEN g' \<le> mem_size (mem g')"
proof (cases realloc)
  case None
  obtain p g' where "pass_encoded s malloc g = Inr (p, g')" "WASM_VECTOR_LEN g' = length (text_encode s)"
    "region (mem g') p (WASM_VECTOR_LEN g') = text_encode s" "unat p + WASM_VECTOR_LEN g' \<le> mem_size (mem g')"
    by (rule pass_encoded_correct [OF assms(1)])
  then show ?thesis by (intro that [of p g']) (simp_all add: passStringToWasm0_def None)
next
  case (Some r)
  let ?a = "takeWhile (\<lambda>c. unat c \<le> 0x7F) s" and ?rest = "dropWhile (\<lambda>c. unat c \<le> 0x7F) s"
  have split: "?a @ ?rest = s" by simp
  have enc: "text_encode s = map unat ?a @ text_encode ?rest"
    using text_encode_prefix [of ?a ?rest] set_takeWhileD by (fastforce simp: split)
  obtain p m where pm: "malloc (length s) (mem g) = (p, m)" by fastforce
  have fits: "unat p + length s \<le> mem_size m"
    using assms(1) [unfolded allocates_def, rule_format, of "length s" "mem g"] pm by simp
  let ?v = "getUint8ArrayMemory0 (g\<lparr>mem := m\<rparr>)"
  have len: "byteLength (fst ?v) m = mem_size m" using u8_buffer [of "g\<lparr>mem := m\<rparr>"] by simp
  let ?m1 = "view_set_all (fst ?v) (unat p) (map unat ?a) m"
  let ?g2 = "(snd ?v)\<lparr>mem := ?m1\<rparr>"
  have la: "length ?a \<le> length s" by (rule length_takeWhile_le)
  have copy: "copy_ascii (fst ?v) (unat p) 0 s m = (length ?a, ?rest, ?m1)"
    using copy_ascii_spec [of p 0 s "fst ?v" m] fits len by (simp add: Let_def)
  have before: "region ?m1 p (length ?a) = map unat ?a"
    using region_set_all [of p 0 "map unat ?a" "fst ?v" m] fits len la by (simp add: region_def)
  show ?thesis
  proof (cases "length ?a = length s")
    case True
    then have "?rest = []" by (metis append_self_conv length_0_conv length_append add_cancel_right_right split)
    then have "text_encode s = map unat ?a" unfolding enc \<open>?rest = []\<close> by (simp add: text_encode_def)
    then show ?thesis using True fits before copy u8_mem(1) [of "g\<lparr>mem := m\<rparr>"]
      by (intro that [of p "?g2\<lparr>WASM_VECTOR_LEN := length ?a\<rparr>"])
         (simp_all add: passStringToWasm0_def Some pm Let_def case_prod_beta)
  next
    case False
    obtain p' g3 where r: "pass_rest ?rest p (length s) (length ?a) r ?g2 = (p', length ?a + length (text_encode ?rest), g3)"
        "region (mem g3) p' (length ?a + length (text_encode ?rest)) = map unat ?a @ text_encode ?rest"
        "unat p' + (length ?a + length (text_encode ?rest)) \<le> mem_size (mem g3)"
      by (rule pass_rest_correct [of r p "length s" ?g2 "length ?a" "map unat ?a" ?rest])
         (use assms(2) Some fits la before in auto)
    then show ?thesis using False copy enc u8_mem(1) [of "g\<lparr>mem := m\<rparr>"]
      by (intro that [of p' "g3\<lparr>WASM_VECTOR_LEN := length ?a + length (text_encode ?rest)\<rparr>"])
         (simp_all add: passStringToWasm0_def Some pm Let_def case_prod_beta)
  qed
qed

lemma clip_unat: "clip n (uint (p :: 32 word)) = min (unat p) n" "clip n (uint (p :: 32 word) + int k) = min (unat p + k) n"
proof -
  have c: "clip n (int i) = min i n" for i by (auto simp: clip_def min_def)
  show "clip n (uint p) = min (unat p) n" using c [of "unat p"] by simp
  show "clip n (uint p + int k) = min (unat p + k) n" using c [of "unat p + k"] by simp
qed

text \<open>A string from wasm memory that holds valid UTF-8.\<close>

lemma getString_bytes:
  assumes "region (mem g) p n = bs" "unat p + n \<le> mem_size (mem g)" "n < 2 ^ 31"
  shows "fst (getStringFromWasm0 p (of_nat n) g) = decode_fatal bs"
proof -
  have n: "sint (of_nat n :: 32 word) = int n"
  proof -
    have "uint (of_nat n :: 32 word) = int n" using assms(3) by (simp add: uint_nat unat_of_nat take_bit_nat_eq_self)
    moreover have "sint (of_nat n :: 32 word) = signed_take_bit 31 (uint (of_nat n :: 32 word))"
      by (simp add: sint_uint)
    ultimately show ?thesis using assms(3) by (simp add: signed_take_bit_int_eq_self)
  qed
  have sub: "subarray (fst (getUint8ArrayMemory0 g')) (uint p) (uint p + int n) (mem g) = bs" if "mem g' = mem g" for g'
    using u8_buffer [of g'] that assms(1,2) by (simp add: subarray_def clip_unat region_def Let_def min_absorb1)
  show ?thesis
    by (simp add: getStringFromWasm0_def decodeText_def n Let_def case_prod_beta sub)
qed

lemma decode_encoded: "well_formed s \<Longrightarrow> decode_fatal (text_encode s) = Inr s"
  by (simp add: decode_fatal_def text_encode_scalars well_formed_def utf8_decode_encode units_code_points comp_def)

subsection \<open>The properties\<close>

text \<open>A module whose memory grows at every allocation, and a state to start from.\<close>

definition growing_malloc :: alloc where
  "growing_malloc n m = (8, m\<lparr>mem_size := max (mem_size m) (8 + n), buffer := Suc (buffer m)\<rparr>)"

definition growing_realloc :: regrow where
  "growing_realloc p old new m = (p, m\<lparr>mem_size := max (mem_size m) (unat p + new), buffer := Suc (buffer m)\<rparr>)"

definition sample_glue :: glue where
  "sample_glue = \<lparr>mem = \<lparr>bytes = (\<lambda>_. 0), mem_size = 0, buffer = 0\<rparr>, cachedUint8ArrayMemory0 = None,
     cachedDataViewMemory0 = None, WASM_VECTOR_LEN = 0, numBytesDecoded = 0, decoder_fed = 0\<rparr>"

lemma growing_ok: "allocates growing_malloc" "regrows growing_realloc"
  by (auto simp: allocates_def regrows_def growing_malloc_def growing_realloc_def region_def)

text \<open>
  C5: strings reach the module as UTF-8. Whatever string is passed and whatever the allocator does to
  the memory, growing it or not, \<open>passStringToWasm0\<close> throws nothing and leaves at the pointer it
  returns, inside the memory, \<open>WASM_VECTOR_LEN\<close> bytes that are the UTF-8 encoding of the string: the
  loop that copies the ASCII prefix, and reallocates for the rest, gives the same bytes as encoding
  the string at once.
\<close>

theorem pass_string_utf8:
  assumes "allocates malloc" "regrows realloc"
  shows "\<exists>p g' q g''. passStringToWasm0 s malloc (Some realloc) g = Inr (p, g') \<and>
      region (mem g') p (WASM_VECTOR_LEN g') = text_encode s \<and> unat p + WASM_VECTOR_LEN g' \<le> mem_size (mem g') \<and>
    passStringToWasm0 s malloc None g = Inr (q, g'') \<and>
      region (mem g'') q (WASM_VECTOR_LEN g'') = text_encode s \<and> WASM_VECTOR_LEN g'' = WASM_VECTOR_LEN g'"
proof -
  have "\<forall>r. Some realloc = Some r \<longrightarrow> regrows r" "\<forall>r. None = Some r \<longrightarrow> regrows r" using assms(2) by auto
  note one = pass_string_correct [OF assms(1) this(1), of s g] and two = pass_string_correct [OF assms(1) this(2), of s g]
  from one two show ?thesis by metis
qed

theorem pass_string_utf8_witness:
  "\<exists>p g'. passStringToWasm0 [0x68, 0xE9, 0xD83D, 0xDE00] growing_malloc (Some growing_realloc) sample_glue = Inr (p, g') \<and>
     region (mem g') p (WASM_VECTOR_LEN g') = text_encode [0x68, 0xE9, 0xD83D, 0xDE00]"
  using pass_string_utf8 [OF growing_ok] by blast



text \<open>Decoding a list of strings one after the other.\<close>

definition decode_run :: "(int \<times> nat) list \<Rightarrow> glue \<Rightarrow> glue" where
  "decode_run ds g = fold (\<lambda>(ptr, len). snd \<circ> decodeText ptr (int len)) ds g"

lemma subarray_length: "length (subarray v b (b + int n) m) \<le> n"
  unfolding subarray_def Let_def clip_def by (auto simp: nat_le_iff)

lemma decode_counts:
  obtains k where "k \<le> len"
    "numBytesDecoded (snd (decodeText ptr (int len) g)) =
      (if MAX_SAFARI_DECODE_BYTES \<le> numBytesDecoded g + int len then int len else numBytesDecoded g + int len)"
    "decoder_fed (snd (decodeText ptr (int len) g)) =
      (if MAX_SAFARI_DECODE_BYTES \<le> numBytesDecoded g + int len then 0 else decoder_fed g) + int k"
proof -
  let ?g1 = "g\<lparr>numBytesDecoded := numBytesDecoded g + int len\<rparr>"
  let ?g2 = "if MAX_SAFARI_DECODE_BYTES \<le> numBytesDecoded ?g1 then ?g1\<lparr>decoder_fed := 0, numBytesDecoded := int len\<rparr> else ?g1"
  let ?bs = "subarray (fst (getUint8ArrayMemory0 ?g2)) ptr (ptr + int len) (mem (snd (getUint8ArrayMemory0 ?g2)))"
  have eq: "snd (decodeText ptr (int len) g) = (snd (getUint8ArrayMemory0 ?g2))\<lparr>decoder_fed :=
      decoder_fed (snd (getUint8ArrayMemory0 ?g2)) + int (length ?bs)\<rparr>"
    unfolding decodeText_def Let_def case_prod_beta by simp
  show ?thesis
    by (rule that [of "length ?bs"], rule subarray_length, unfold eq) simp_all
qed

text \<open>
  C28: a decoder is renewed before it has decoded too much. Whatever strings of less than
  \<open>MAX_SAFARI_DECODE_BYTES\<close> bytes are decoded, the counter never reaches that bound, and the
  present decoder has never been given more bytes than the counter says.
\<close>

theorem decoder_budget:
  assumes "\<forall>(ptr, len)\<in>set ds. int len < MAX_SAFARI_DECODE_BYTES"
    and "0 \<le> decoder_fed g" "decoder_fed g \<le> numBytesDecoded g" "numBytesDecoded g < MAX_SAFARI_DECODE_BYTES"
  shows "0 \<le> decoder_fed (decode_run ds g) \<and> decoder_fed (decode_run ds g) \<le> numBytesDecoded (decode_run ds g) \<and>
    numBytesDecoded (decode_run ds g) < MAX_SAFARI_DECODE_BYTES"
  using assms
proof (induction ds arbitrary: g)
  case Nil
  then show ?case by (simp add: decode_run_def)
next
  case (Cons d ds)
  obtain ptr len where d: "d = (ptr, len)" by fastforce
  let ?g = "snd (decodeText ptr (int len) g)"
  have "0 \<le> decoder_fed ?g \<and> decoder_fed ?g \<le> numBytesDecoded ?g \<and> numBytesDecoded ?g < MAX_SAFARI_DECODE_BYTES"
  proof -
    obtain k where "k \<le> len" and n: "numBytesDecoded ?g =
        (if MAX_SAFARI_DECODE_BYTES \<le> numBytesDecoded g + int len then int len else numBytesDecoded g + int len)"
      and f: "decoder_fed ?g =
        (if MAX_SAFARI_DECODE_BYTES \<le> numBytesDecoded g + int len then 0 else decoder_fed g) + int k"
      by (rule decode_counts)
    moreover have "int len < MAX_SAFARI_DECODE_BYTES" using Cons.prems(1) d by simp
    ultimately show ?thesis unfolding n f using Cons.prems(2-4) by simp
  qed
  then show ?case using Cons.IH [of ?g] Cons.prems(1) by (simp add: decode_run_def d)
qed

theorem decoder_budget_witness:
  "numBytesDecoded (decode_run [(0, 2147483), (8, 70)] sample_glue) < MAX_SAFARI_DECODE_BYTES"
  using decoder_budget [of "[(0, 2147483), (8, 70)]" sample_glue] by (simp add: sample_glue_def MAX_SAFARI_DECODE_BYTES_def)

end
