(* ===== verification/Glue_Objects_Correct.thy ===== *)
theory Glue_Objects_Correct
  imports Glue_Objects
begin

text \<open>
  What the glue owns it gives back once: a class instance hands its pointer over at most once and
  never uses it afterwards; a closure is destroyed once, not while it runs, and not too late.
\<close>

subsection \<open>Classes\<close>

text \<open>The calls before, at and after the one that hands over the pointer.\<close>

definition handed_over :: "nat \<Rightarrow> wcall list \<Rightarrow> bool" where
  "handed_over p ws \<longleftrightarrow> (\<exists>before w after. ws = before @ w # after \<and> hands_over p w \<and>
     (\<forall>x\<in>set before. \<not> hands_over p x) \<and> (\<forall>x\<in>set after. \<not> passes p x))"

definition object_inv :: "nat \<Rightarrow> wobject \<Rightarrow> bool" where
  "object_inv p obj \<longleftrightarrow> (o_ptr obj = p \<and> o_registered obj \<and> (\<forall>w\<in>set (o_calls obj). \<not> hands_over p w)) \<or>
     (o_ptr obj = 0 \<and> \<not> o_registered obj \<and> handed_over p (o_calls obj))"

lemma handed_over_later: "handed_over p ws \<Longrightarrow> \<not> passes p x \<Longrightarrow> handed_over p (ws @ [x])"
proof -
  assume "handed_over p ws" and x: "\<not> passes p x"
  then obtain before w after where "ws = before @ w # after" "hands_over p w"
     "\<forall>x\<in>set before. \<not> hands_over p x" "\<forall>x\<in>set after. \<not> passes p x"
    unfolding handed_over_def by blast
  with x show "handed_over p (ws @ [x])"
    unfolding handed_over_def by (intro exI [of _ before] exI [of _ w] exI [of _ "after @ [x]"]) simp
qed

lemma handed_over_now: "\<forall>w\<in>set ws. \<not> hands_over p w \<Longrightarrow> hands_over p x \<Longrightarrow> handed_over p (ws @ [x])"
  unfolding handed_over_def by (intro exI [of _ ws] exI [of _ x] exI [of _ "[]"]) simp

lemma object_inv_wrap: "object_inv p (wrap c p)"
  by (simp add: object_inv_def wrap_def)

lemma object_inv_lend:
  assumes "p \<noteq> 0" "object_inv p obj"
  shows "object_inv p (obj\<lparr>o_calls := o_calls obj @ [Invoke m Lends (o_ptr obj)]\<rparr>)"
proof (cases "o_registered obj")
  case True
  then show ?thesis using assms(2) by (auto simp: object_inv_def)
next
  case False
  then have "handed_over p (o_calls obj)" "o_ptr obj = 0" using assms(2) by (simp_all add: object_inv_def)
  then show ?thesis using False assms(1) by (simp add: object_inv_def handed_over_later)
qed

lemma object_inv_give:
  assumes "p \<noteq> 0" "object_inv p obj" "hands_over p (w p)" "\<not> passes p (w 0)"
  shows "object_inv p (obj\<lparr>o_ptr := 0, o_registered := False, o_calls := o_calls obj @ [w (o_ptr obj)]\<rparr>)"
proof (cases "o_registered obj")
  case True
  then have "handed_over p (o_calls obj @ [w (o_ptr obj)])"
    using assms by (auto simp: object_inv_def intro: handed_over_now)
  then show ?thesis by (simp add: object_inv_def)
next
  case False
  then have "handed_over p (o_calls obj)" "o_ptr obj = 0" using assms(2) by (simp_all add: object_inv_def)
  then show ?thesis using assms(4) by (simp add: object_inv_def handed_over_later)
qed

lemma object_inv_use:
  assumes "p \<noteq> 0" "object_inv p obj" "use_object us obj = Some obj'"
  shows "object_inv p obj'"
  using assms(2,3)
proof (induction us arbitrary: obj)
  case (Cons u us)
  show ?case
  proof (cases u)
    case FreeUse
    have "object_inv p (free obj)"
      using object_inv_give [of p obj "\<lambda>q. Free q False"] assms(1) Cons.prems(1) by (simp add: free_def destroy_into_raw_def)
    then show ?thesis using Cons FreeUse by simp
  next
    case (MethodUse m)
    then obtain obj1 where c: "call_method m obj = Some obj1" "use_object us obj1 = Some obj'"
      using Cons.prems(2) by (auto split: option.splits)
    have "object_inv p obj1"
      using c(1) object_inv_lend [OF assms(1) Cons.prems(1), of m]
        object_inv_give [of p obj "\<lambda>q. Invoke m GivesAway q"] assms(1) Cons.prems(1)
      by (auto simp: call_method_def destroy_into_raw_def split: option.splits passing.splits)
    then show ?thesis using Cons.IH c(2) by simp
  qed
qed simp



subsection \<open>Closures\<close>

definition holds :: "closure \<Rightarrow> int" where
  "holds c = int (length (running c)) + (if dropped c then 0 else 1)"

text \<open>Before and after the closure is destroyed.\<close>

definition alive :: "bool \<Rightarrow> nat \<Rightarrow> closure \<Rightarrow> bool" where
  "alive mut p c \<longleftrightarrow> destroyed c = [] \<and> registered c \<and> \<not> collected c \<and> 0 < holds c \<and>
     (if mut then (if running c = [] then a c = p
                   else a c = 0 \<and> last (running c) = p \<and> set (butlast (running c)) \<subseteq> {0})
      else a c = p \<and> set (running c) \<subseteq> {p})"

definition dead :: "nat \<Rightarrow> closure \<Rightarrow> bool" where
  "dead p c \<longleftrightarrow> (\<exists>n. destroyed c = p # replicate n 0) \<and> \<not> registered c \<and> (a c = 0 \<or> collected c) \<and>
     set (running c) \<subseteq> {0} \<and> (collected c \<longrightarrow> running c = [])"

definition closure_inv :: "bool \<Rightarrow> nat \<Rightarrow> closure \<Rightarrow> bool" where
  "closure_inv mut p c \<longleftrightarrow> cnt c = holds c \<and> (alive mut p c \<or> dead p c)"

lemma closure_inv_make: "closure_inv mut p (closure_state p)"
  by (simp add: closure_inv_def alive_def closure_state_def holds_def)

lemma replicate_snoc: "replicate n x @ [x] = replicate (Suc n) x"
  by (simp add: replicate_append_same)

text \<open>How the operations change a closure.\<close>

lemma enter_simps [simp]:
  "destroyed (enter c) = destroyed c" "registered (enter c) = registered c" "collected (enter c) = collected c"
  "dropped (enter c) = dropped c" "running (enter c) = a c # running c" "a (enter c) = a c" "cnt (enter c) = cnt c + 1"
  "destroyed (enter_mut c) = destroyed c" "registered (enter_mut c) = registered c" "collected (enter_mut c) = collected c"
  "dropped (enter_mut c) = dropped c" "running (enter_mut c) = a c # running c" "a (enter_mut c) = 0" "cnt (enter_mut c) = cnt c + 1"
  by (simp_all add: enter_def enter_mut_def)

lemma unref_simps [simp]:
  "collected (cb_unref c) = collected c" "dropped (cb_unref c) = dropped c" "running (cb_unref c) = running c"
  "cnt (cb_unref c) = cnt c - 1" "a (cb_unref c) = (if cnt c = 1 then 0 else a c)"
  "registered (cb_unref c) \<longleftrightarrow> registered c \<and> cnt c \<noteq> 1"
  "destroyed (cb_unref c) = (if cnt c = 1 then destroyed c @ [a c] else destroyed c)"
  by (simp_all add: cb_unref_def Let_def)

lemma holds_nonneg: "0 \<le> holds c"
  by (simp add: holds_def)

text \<open>Releasing one hold: the closure stays alive, is destroyed now, or was destroyed before.\<close>

lemma dead_unref:
  assumes "dead p c" "collected c \<longrightarrow> running c = []" "a c = 0"
  shows "dead p (cb_unref c)"
proof -
  obtain n where n: "destroyed c = p # replicate n 0" using assms(1) by (auto simp: dead_def)
  have "destroyed (cb_unref c) = p # replicate (if cnt c = 1 then Suc n else n) 0"
    using n assms(3) by (simp add: replicate_append_same)
  then show ?thesis using assms unfolding dead_def by (auto intro: exI [of _ "if cnt c = 1 then Suc n else n"])
qed

lemma inv_call:
  assumes "closure_inv mut p c" "closure_step mut Call c = Some c'"
  shows "closure_inv mut p c'"
proof -
  have col: "\<not> collected c" and c': "c' = (if mut then enter_mut c else enter c)"
    using assms(2) by (auto split: if_splits)
  have cnt: "cnt c' = holds c'" using assms(1) by (simp add: closure_inv_def c' holds_def)
  have "alive mut p c'" if "alive mut p c"
    using that by (cases "running c"; cases mut) (auto simp: alive_def c' holds_def)
  moreover have "dead p c'" if "dead p c"
    using that col by (cases mut) (auto simp: dead_def c')
  ultimately show ?thesis using assms(1) cnt by (auto simp: closure_inv_def)
qed

lemma inv_drop:
  assumes "closure_inv mut p c" "closure_step mut Drop c = Some c'"
  shows "closure_inv mut p c'"
proof -
  have col: "\<not> dropped c" "\<not> collected c" and c': "c' = (cb_unref c)\<lparr>dropped := True\<rparr>"
    using assms(2) by (auto split: if_splits)
  have h: "cnt c = holds c" using assms(1) by (simp add: closure_inv_def)
  have cnt: "cnt c' = holds c'" using h col by (simp add: c' holds_def)
  have "alive mut p c' \<or> dead p c'" if alive: "alive mut p c"
  proof (cases "running c")
    case Nil
    then have "dead p c'" using alive h col
      by (cases mut) (auto simp: alive_def dead_def c' holds_def intro: exI [of _ 0])
    then show ?thesis by simp
  next
    case (Cons q qs)
    then have "alive mut p c'" using alive h col by (cases mut) (auto simp: alive_def c' holds_def)
    then show ?thesis by simp
  qed
  moreover have "dead p c'" if "dead p c"
  proof -
    have "a c = 0" using that col by (simp add: dead_def)
    then have "dead p (cb_unref c)" using dead_unref that col by blast
    then show ?thesis by (simp add: dead_def c')
  qed
  ultimately show ?thesis using assms(1) cnt by (auto simp: closure_inv_def)
qed

lemma inv_collect:
  assumes "closure_inv mut p c" "closure_step mut Collect c = Some c'"
  shows "closure_inv mut p c'"
proof -
  have col: "\<not> collected c" "running c = []" and c': "c' = (finalize c)\<lparr>collected := True\<rparr>"
    using assms(2) by (auto split: if_splits)
  have "cnt c' = holds c'" using assms(1) by (simp add: closure_inv_def c' holds_def finalize_def)
  moreover have "dead p c'" if "alive mut p c"
    using that col by (cases mut) (auto simp: alive_def dead_def c' finalize_def intro: exI [of _ 0])
  moreover have "dead p c'" if "dead p c"
    using that col by (auto simp: dead_def c' finalize_def)
  ultimately show ?thesis using assms(1) by (auto simp: closure_inv_def)
qed

lemma inv_return:
  assumes "closure_inv mut p c" "closure_step mut Return c = Some c'"
  shows "closure_inv mut p c'"
proof -
  obtain q qs where r: "running c = q # qs" using assms(2) by (cases "running c") auto
  let ?c = "if mut then c\<lparr>a := q, running := qs\<rparr> else c\<lparr>running := qs\<rparr>"
  have c': "c' = cb_unref ?c" using assms(2) r by (simp add: leave_def leave_mut_def split: if_splits)
  have h: "cnt c = int (length qs) + 1 + (if dropped c then 0 else 1)" using assms(1) r by (simp add: closure_inv_def holds_def)
  have cnt: "cnt c' = holds c'" using h by (simp add: c' holds_def)
  have "alive mut p c' \<or> dead p c'" if alive: "alive mut p c"
  proof (cases "cnt c = 1")
    case True
    then have "qs = []" "dropped c" using h by (auto split: if_splits)
    then have "dead p c'" using alive True r
      by (cases mut) (auto simp: alive_def dead_def c' intro: exI [of _ 0])
    then show ?thesis by simp
  next
    case False
    then have pos: "0 < holds c'" using h by (simp add: c' holds_def split: if_splits)
    show ?thesis
    proof (cases mut)
      case True
      then have "alive mut p c'" using alive False r pos
        by (cases "qs = []") (auto simp: alive_def c' split: if_splits)
      then show ?thesis by simp
    next
      case no_mut: False
      then have "alive mut p c'" using alive False r pos by (auto simp: alive_def c')
      then show ?thesis by simp
    qed
  qed
  moreover have "dead p c'" if dead: "dead p c"
  proof -
    have "q = 0" "\<not> collected c" "a c = 0" using dead r by (auto simp: dead_def)
    then have "dead p ?c" "a ?c = 0" "\<not> collected ?c" using dead r by (auto simp: dead_def)
    then show ?thesis unfolding c' using dead_unref by blast
  qed
  ultimately show ?thesis using assms(1) cnt by (auto simp: closure_inv_def)
qed

interpretation closures: machine "closure_step mut" "closure_inv mut p" for mut p
proof (unfold_locales, goal_cases)
  case (1 e c c')
  then show ?case using inv_call inv_return inv_drop inv_collect by (cases e) blast+
qed



subsection \<open>The executor\<close>

text \<open>After the constructor has returned, no call of \<open>cb0\<close> is given the pointer.\<close>

definition executor_inv :: "nat \<Rightarrow> executor \<Rightarrow> bool" where
  "executor_inv p x \<longleftrightarrow> set (state0_a x # ex_running x) \<subseteq> (if ex_returned x then {0} else {p, 0}) \<and>
     count_list (state0_a x # ex_running x) p \<le> 1"

interpretation executors: machine executor_step "\<lambda>x. p \<noteq> 0 \<and> executor_inv p x" for p
proof (unfold_locales, goal_cases)
  case (1 e x x')
  then show ?case by (cases e) (auto simp: executor_inv_def split: list.splits if_splits)
qed

lemma executor_pointer_contained:
  assumes "p \<noteq> 0" "executor_run es (new_typed p) = Some x"
  shows "count_list (state0_a x # ex_running x) p \<le> 1 \<and> (ex_returned x \<longrightarrow> state0_a x = 0 \<and> set (ex_running x) \<subseteq> {0})"
  using executors.run_inv [OF assms(2) [unfolded executor_run_def], of p] assms(1)
  by (auto simp: executor_inv_def new_typed_def split: if_splits)

end
