(* ===== verification/Glue_Imports_Correct.thy ===== *)
theory Glue_Imports_Correct
  imports Glue_Imports Glue_Memory_Correct Glue_Objects_Correct
begin

text \<open>
  What the module can rely on when it calls its imports: which of them never throw, where the
  exception goes, how values are classified, and how strings and references come back.
\<close>

subsection \<open>The table of references\<close>

text \<open>The allocation of the module: a slot inside the table, neither slot 0 nor one in use.\<close>

definition allocates_slot :: "'w env \<Rightarrow> (jsval list \<Rightarrow> nat set) \<Rightarrow> bool" where
  "allocates_slot E live \<longleftrightarrow> (\<forall>t. case x_table_alloc E t of (idx, t') \<Rightarrow>
     idx < length t' \<and> idx \<noteq> 0 \<and> idx \<notin> live t \<and> length t \<le> length t' \<and> (\<forall>k\<in>live t. k < length t' \<and> t' ! k = t ! k))"

lemma add_extern:
  assumes "allocates_slot E live" "addToExternrefTable0 E v s = (idx, s')"
  shows "idx \<noteq> 0" "idx < length (externs s')" "externs s' ! idx = v" "idx \<notin> live (externs s)"
    "\<And>k. k \<in> live (externs s) \<Longrightarrow> externs s' ! k = externs s ! k"
    "s' = s\<lparr>externs := externs s'\<rparr>"
proof -
  obtain t where t: "x_table_alloc E (externs s) = (idx, t)" "s' = s\<lparr>externs := t[idx := v]\<rparr>"
    using assms(2) by (auto simp: addToExternrefTable0_def Let_def split: prod.splits)
  have ok: "idx < length t" "idx \<noteq> 0" "idx \<notin> live (externs s)" "\<forall>k\<in>live (externs s). k < length t \<and> t ! k = externs s ! k"
    using assms(1) [unfolded allocates_slot_def, rule_format, of "externs s"] t(1) by auto
  then show "idx \<noteq> 0" "idx < length (externs s')" "externs s' ! idx = v" "idx \<notin> live (externs s)"
    "\<And>k. k \<in> live (externs s) \<Longrightarrow> externs s' ! k = externs s ! k" "s' = s\<lparr>externs := externs s'\<rparr>"
    by (auto simp: t(2) nth_list_update)
qed

text \<open>
  An environment in which every property is a string, every method throws, and slots are appended.
\<close>

definition sample_env :: "unit env" where
  "sample_env = \<lparr>e_get = (\<lambda>v p. io_return (Str (js ''text/html''))), e_index = (\<lambda>v i. io_return Undefined),
     e_set = (\<lambda>v p w. io_return ()), e_method = (\<lambda>v m vs. io_throw (Object 7)), e_call = (\<lambda>g vs. io_return Undefined),
     e_new = (\<lambda>c vs. io_return (Object 3)), e_instanceof = (\<lambda>v c. io_return False), e_global = (\<lambda>g. None),
     e_observe = (\<lambda>v. io_return (Plain [])), x_malloc = growing_malloc, x_realloc = growing_realloc,
     x_table_alloc = (\<lambda>t. if t = [] then (1, [Undefined, Undefined]) else (length t, t @ [Undefined])),
     x_table_dealloc = (\<lambda>n s. s), x_invoke = (\<lambda>f vs. io_return [])\<rparr>"

definition sample_state :: "unit state" where
  "sample_state = \<lparr>world = (), glue = sample_glue, externs = [Undefined, Undefined, Null, Boolean True, Boolean False],
     closures = [], executors = [], instances = [], exn_stored = []\<rparr>"

lemma sample_slots: "allocates_slot sample_env (\<lambda>t. {..<length t})"
  by (auto simp: allocates_slot_def sample_env_def nth_append)



subsection \<open>Exceptions\<close>

text \<open>
  C16: an import wrapped in \<open>handleError\<close> never throws into the module. Whatever the browser does, it
  returns; what was thrown, and only that, is stored: the module is told one new slot of the table,
  which holds the thrown value.
\<close>

theorem wrapped_imports_return:
  assumes "map_of (import_table E) name = Some (True, f)" "allocates_slot E live"
  shows "\<exists>v s'. run_import E name args s = (Inr v, s') \<and>
    (case f args s of
       (Inr w, s1) \<Rightarrow> v = w \<and> s' = s1
     | (Inl e, s1) \<Rightarrow> v = Undefined \<and> (\<exists>idx. exn_stored s' = exn_stored s1 @ [idx] \<and> idx \<noteq> 0 \<and>
         idx \<notin> live (externs s1) \<and> fst (takeFromExternrefTable0 E idx s') = e))"
proof -
  have run: "run_import E name args s = handleError E (f args) s"
    using assms(1) by (simp add: run_import_def run_entry_def)
  show ?thesis
  proof (cases "f args s")
    case (Pair r s1)
    show ?thesis
    proof (cases r)
      case (Inr w)
      then show ?thesis using Pair by (simp add: run handleError_def)
    next
      case (Inl e)
      obtain idx s2 where add: "addToExternrefTable0 E e s1 = (idx, s2)" by fastforce
      have "exn_stored s2 = exn_stored s1" using add_extern(6) [OF assms(2) add] by (metis state.ext_inject state.surjective state.update_convs(3))
      then show ?thesis
        using Pair Inl add_extern [OF assms(2) add] by (simp add: run handleError_def add takeFromExternrefTable0_def)
    qed
  qed
qed

theorem wrapped_imports_return_witness:
  "\<exists>s'. run_import sample_env ''__wbg_close_72f69f5f2de2bc73'' [Object 1] sample_state = (Inr Undefined, s') \<and>
     (\<exists>idx. exn_stored s' = [idx] \<and> fst (takeFromExternrefTable0 sample_env idx s') = Object 7)"
proof -
  let ?f = "ignore (host_method sample_env ''close'' [])"
  have l: "map_of (import_table sample_env) ''__wbg_close_72f69f5f2de2bc73'' = Some (True, ?f)"
    by (simp add: import_table_def imports_1_def)
  have "?f [Object 1] sample_state = (Inl (Object 7), sample_state)"
    by (simp add: ignore_def host_method_def io_bind_def io_return_def io_throw_def sample_env_def)
  then show ?thesis using wrapped_imports_return [OF l sample_slots, of "[Object 1]" sample_state] by (auto simp: sample_state_def)
qed

subsection \<open>Classification\<close>


subsection \<open>Strings for the module\<close>

text \<open>A little-endian 32-bit number in the memory.\<close>

definition u32_at :: "memory \<Rightarrow> nat \<Rightarrow> nat" where
  "u32_at m i = bytes m i + 256 * bytes m (i + 1) + 65536 * bytes m (i + 2) + 16777216 * bytes m (i + 3)"

lemma le_bytes: "n mod 256 + 256 * (n div 256 mod 256) + 65536 * (n div 65536 mod 256) + 16777216 * (n div 16777216) = (n :: nat)"
proof -
  have "n div 65536 = n div 256 div 256" "n div 16777216 = n div 65536 div 256" by (simp_all flip: div_mult2_eq)
  moreover have "n = 256 * (n div 256) + n mod 256" "n div 256 = 256 * (n div 256 div 256) + n div 256 mod 256"
    "n div 65536 = 256 * (n div 65536 div 256) + n div 65536 mod 256" by simp_all
  ultimately show ?thesis by linarith
qed

lemma set_int32_spec:
  assumes "i + 4 \<le> mem_size (mem (glue s))"
  obtains s' where "set_int32 (int i) x s = (Inr (), s')" "u32_at (mem (glue s')) i = unat x"
    "\<And>j. j < i \<or> i + 4 \<le> j \<Longrightarrow> bytes (mem (glue s')) j = bytes (mem (glue s)) j"
    "mem_size (mem (glue s')) = mem_size (mem (glue s))"
proof -
  let ?g = "snd (getDataViewMemory0 (glue s))" and ?v = "fst (getDataViewMemory0 (glue s))"
  have v: "?v = buffer (mem (glue s))" "mem ?g = mem (glue s)" by (simp_all add: getDataViewMemory0_def)
  let ?bs = "[unat x mod 256, unat x div 256 mod 256, unat x div 65536 mod 256, unat x div 16777216]"
  let ?m = "view_set_all ?v i ?bs (mem (glue s))"
  have len: "byteLength ?v (mem (glue s)) = mem_size (mem (glue s))" by (simp add: byteLength_def v)
  have "set_int32 (int i) x s = (Inr (), s\<lparr>glue := ?g\<lparr>mem := ?m\<rparr>\<rparr>)"
    using assms len by (simp add: set_int32_def setInt32_def case_prod_beta v)
  moreover have b: "bytes ?m j = (if i \<le> j \<and> j < i + 4 then ?bs ! (j - i) else bytes (mem (glue s)) j)" for j
    using bytes_set_all [of i ?bs ?v "mem (glue s)" j] assms len by simp
  have "u32_at ?m i = unat x" using le_bytes [of "unat x"] by (simp add: u32_at_def b del: view_set_all.simps)
  moreover have "\<And>j. j < i \<or> i + 4 \<le> j \<Longrightarrow> bytes ?m j = bytes (mem (glue s)) j" by (auto simp: b simp del: view_set_all.simps)
  ultimately show ?thesis by (intro that [of "s\<lparr>glue := ?g\<lparr>mem := ?m\<rparr>\<rparr>"]) simp_all
qed

lemma i32_nonneg: "0 \<le> r \<Longrightarrow> r < 2 ^ 31 \<Longrightarrow> sint (i32 (Num r)) = r"
  by (simp add: i32_def sint_uint word_of_int_inverse signed_take_bit_int_eq_self take_bit_int_eq_self uint_word_of_int)

lemma u32_at_other:
  assumes "\<And>k. k < 4 \<Longrightarrow> bytes m' (j + k) = bytes m (j + k)"
  shows "u32_at m' j = u32_at m j"
  using assms [of 0] assms [of 1] assms [of 2] assms [of 3] by (simp add: u32_at_def)

text \<open>
  C29: a string getter hands the module its text. When the browser's property is a string, the import
  returns, the eight bytes at the return pointer are the address and the length of a region of the
  memory, and the region holds the UTF-8 encoding of the string, wherever the allocator put it
  outside those eight bytes.
\<close>

theorem string_getter_readable:
  assumes "f args s = (Inr (Str t), s1)" "allocates (x_malloc E)" "regrows (x_realloc E)"
    and "passStringToWasm0 t (x_malloc E) (Some (x_realloc E)) (glue s1) = Inr (p, g)"
    and "arg args 0 = Num (int r)" "r < 2 ^ 31" "r + 8 \<le> mem_size (mem g)" "3 * length t < 2 ^ 31"
    and "unat p + length (text_encode t) \<le> r \<or> r + 8 \<le> unat p"
  shows "\<exists>s2. string_out E f args s = (Inr Undefined, s2) \<and> u32_at (mem (glue s2)) r = unat p \<and>
    u32_at (mem (glue s2)) (r + 4) = length (text_encode t) \<and>
    region (mem (glue s2)) p (length (text_encode t)) = text_encode t"
proof -
  have "\<forall>x. Some (x_realloc E) = Some x \<longrightarrow> regrows x" using assms(3) by auto
  from pass_string_correct [OF assms(2) this, of t "glue s1"]
  obtain p1 g1 where "passStringToWasm0 t (x_malloc E) (Some (x_realloc E)) (glue s1) = Inr (p1, g1)"
    "region (mem g1) p1 (WASM_VECTOR_LEN g1) = text_encode t" "WASM_VECTOR_LEN g1 = length (text_encode t)"
    by metis
  with assms(4) have reg: "region (mem g) p (length (text_encode t)) = text_encode t" "WASM_VECTOR_LEN g = length (text_encode t)"
    by simp_all
  have small: "length (text_encode t) < 2 ^ 32" using enc_bound [of t] assms(8) by (simp add: text_encode_enc)
  let ?s = "s1\<lparr>glue := g\<rparr>" and ?len = "of_nat (length (text_encode t)) :: 32 word"
  have len: "unat ?len = length (text_encode t)" using small by (simp add: unat_of_nat take_bit_nat_eq_self)
  have ret: "sint (i32 (arg args 0)) = int r" using assms(5,6) i32_nonneg [of "int r"] by simp
  obtain s2 where s2: "set_int32 (int (r + 4)) ?len ?s = (Inr (), s2)" "u32_at (mem (glue s2)) (r + 4) = unat ?len"
      "\<And>j. j < r + 4 \<or> r + 4 + 4 \<le> j \<Longrightarrow> bytes (mem (glue s2)) j = bytes (mem (glue ?s)) j"
      "mem_size (mem (glue s2)) = mem_size (mem (glue ?s))"
    by (rule set_int32_spec [of "r + 4" ?s ?len]) (use assms(7) in auto)
  obtain s3 where s3: "set_int32 (int r) p s2 = (Inr (), s3)" "u32_at (mem (glue s3)) r = unat p"
      "\<And>j. j < r \<or> r + 4 \<le> j \<Longrightarrow> bytes (mem (glue s3)) j = bytes (mem (glue s2)) j"
    by (rule set_int32_spec [of r s2 p]) (use assms(7) s2(4) in auto)
  have out: "string_out E f args s = (Inr Undefined, s3)"
    using assms(1,4) s2(1) s3(1) ret
    by (simp add: string_out_def return_string_def pass_string_def vector_len_def store_ptr_len_def io_bind_def io_return_def reg(2))
  have "u32_at (mem (glue s3)) (r + 4) = u32_at (mem (glue s2)) (r + 4)"
    by (rule u32_at_other) (simp add: s3(3))
  moreover have "bytes (mem (glue s3)) j = bytes (mem g) j" if "unat p \<le> j" "j < unat p + length (text_encode t)" for j
    using s2(3) [of j] s3(3) [of j] assms(9) that by auto
  then have "region (mem (glue s3)) p (length (text_encode t)) = region (mem g) p (length (text_encode t))"
    by (simp add: region_def)
  ultimately show ?thesis using out s3(2) s2(2) len reg(1) by auto
qed

theorem string_getter_readable_witness:
  "\<exists>s2. string_out sample_env (get_prop sample_env 1 ''protocol'') [Num 0, Object 1] sample_state = (Inr Undefined, s2) \<and>
     u32_at (mem (glue s2)) 4 = length (text_encode (js ''text/html''))"
proof -
  let ?t = "js ''text/html''"
  have x: "x_malloc sample_env = growing_malloc" "x_realloc sample_env = growing_realloc" by (simp_all add: sample_env_def)
  obtain p g where pass: "passStringToWasm0 ?t (x_malloc sample_env) (Some (x_realloc sample_env)) (glue sample_state) = Inr (p, g)"
      "p = 8" "8 \<le> mem_size (mem g)"
    by (simp add: x passStringToWasm0_def growing_malloc_def sample_state_def sample_glue_def getUint8ArrayMemory0_def js_def Let_def)
  have "get_prop sample_env 1 ''protocol'' [Num 0, Object 1] sample_state = (Inr (Str ?t), sample_state)"
    by (simp add: get_prop_def sample_env_def io_return_def)
  moreover have "arg [Num 0, Object 1] 0 = Num (int 0)" by (simp add: arg_def)
  moreover have "3 * length ?t < 2 ^ 31" by (simp add: js_def)
  ultimately show ?thesis
    using string_getter_readable [of "get_prop sample_env 1 ''protocol''" "[Num 0, Object 1]" sample_state ?t sample_state sample_env p g 0]
      growing_ok pass by (auto simp: x)
qed

end
