(* ===== verification/Glue_Messages.thy ===== *)
theory Glue_Messages
  imports Glue_Imports_Correct
begin

text \<open>
  A chat message from one page to the other: \<open>chat.send\<close> of the sender's glue, and the import by which
  the receiver's module makes the string it hands to the page's callback. What travels between the
  two modules is the transport's business; that the bytes arrive as they were sent is a hypothesis.
\<close>

lemma text_import: "map_of (import_table E) ''__wbindgen_cast_0000000000000009'' = Some (False, text_arg 0)"
  by (simp add: import_table_def imports_1_def imports_2_def imports_3_def imports_4_def)

lemma received_text:
  assumes "well_formed t" "3 * length t < 2 ^ 31" "region (mem (glue s)) q (length (text_encode t)) = text_encode t"
    "unat q + length (text_encode t) \<le> mem_size (mem (glue s))"
  shows "fst (run_import E ''__wbindgen_cast_0000000000000009'' [Num (uint q), Num (int (length (text_encode t)))] s) = Inr (Str t)"
proof -
  have "length (text_encode t) < 2 ^ 31" using enc_bound [of t] assms(2) by (simp add: text_encode_enc)
  note read = getString_bytes [OF assms(3,4) this]
  obtain g where "getStringFromWasm0 q (of_nat (length (text_encode t))) (glue s) = (Inr t, g)"
    using read decode_encoded [OF assms(1)] by (metis prod.collapse)
  then show ?thesis
    by (simp add: run_import_def run_entry_def text_import text_arg_def get_string_def io_bind_def io_result_def
        io_return_def arg_def i32_def)
qed

lemma sent_text:
  assumes "allocates (x_malloc E)" "regrows (x_realloc E)" "3 * length t < 2 ^ 31"
  obtains p g where "pass_string E t s = (Inr p, s\<lparr>glue := g\<rparr>)" "region (mem g) p (length (text_encode t)) = text_encode t"
    "unat p + length (text_encode t) \<le> mem_size (mem g)"
    "uint (of_nat (WASM_VECTOR_LEN g) :: 32 word) = int (length (text_encode t))"
proof -
  have "\<forall>x. Some (x_realloc E) = Some x \<longrightarrow> regrows x" using assms(2) by auto
  from pass_string_correct [OF assms(1) this, of t "glue s"]
  obtain p g where pg: "passStringToWasm0 t (x_malloc E) (Some (x_realloc E)) (glue s) = Inr (p, g)"
    "region (mem g) p (WASM_VECTOR_LEN g) = text_encode t" "WASM_VECTOR_LEN g = length (text_encode t)"
    "unat p + WASM_VECTOR_LEN g \<le> mem_size (mem g)"
    by metis
  have "length (text_encode t) < 2 ^ 32" using enc_bound [of t] assms(3) by (simp add: text_encode_enc)
  then have "uint (of_nat (WASM_VECTOR_LEN g) :: 32 word) = int (length (text_encode t))"
    by (simp add: pg(3) uint_nat unat_of_nat take_bit_nat_eq_self)
  then show ?thesis using pg by (intro that [of p g]) (simp_all add: pass_string_def)
qed

text \<open>
  A message arrives as it was sent. \<open>chat.send\<close> of a text without lone surrogates calls the module
  with the pointer of the chat and a region of its memory that holds the UTF-8 of the text, and returns
  or throws as the module does; and wherever the receiving module has the same bytes in its memory,
  the import it uses gives the page's callback the same text.
\<close>

lemma chat_message_arrives:
  assumes "allocates (x_malloc E)" "regrows (x_realloc E)" "well_formed t" "3 * length t < 2 ^ 31"
    and "n < length (instances s)" "o_class (instances s ! n) = Chat"
  shows "\<exists>p s1. region (mem (glue s1)) p (length (text_encode t)) = text_encode t \<and>
    unat p + length (text_encode t) \<le> mem_size (mem (glue s1)) \<and>
    chat_send E n t s =
      (case x_invoke E ''chat_send'' [Num (int (o_ptr (instances s ! n))), Num (uint p), Num (int (length (text_encode t)))] s1 of
         (Inl e, s2) \<Rightarrow> (Inl e, s2) | (Inr r, s2) \<Rightarrow> (Inr Undefined, s2)) \<and>
    (\<forall>E' s' q. region (mem (glue s')) q (length (text_encode t)) = region (mem (glue s1)) p (length (text_encode t)) \<and>
       unat q + length (text_encode t) \<le> mem_size (mem (glue s')) \<longrightarrow>
       fst (run_import E' ''__wbindgen_cast_0000000000000009'' [Num (uint q), Num (int (length (text_encode t)))] s') = Inr (Str t))"
proof -
  obtain p g where pass: "pass_string E t s = (Inr p, s\<lparr>glue := g\<rparr>)" "region (mem g) p (length (text_encode t)) = text_encode t"
    "unat p + length (text_encode t) \<le> mem_size (mem g)"
    "uint (of_nat (WASM_VECTOR_LEN g) :: 32 word) = int (length (text_encode t))"
    by (rule sent_text [OF assms(1,2,4)])
  let ?obj = "instances s ! n"
  let ?obj' = "?obj\<lparr>o_calls := o_calls ?obj @ [Invoke ''send'' Lends (o_ptr ?obj)]\<rparr>"
  let ?s1 = "s\<lparr>glue := g, instances := (instances s)[n := ?obj']\<rparr>"
  have call: "call_method ''send'' ?obj = Some ?obj'" by (simp add: call_method_def assms(6) methods_def)
  have "chat_send E n t s = (case x_invoke E ''chat_send'' [Num (int (o_ptr ?obj)), Num (uint p), Num (int (length (text_encode t)))] ?s1 of
         (Inl e, s2) \<Rightarrow> (Inl e, s2) | (Inr r, s2) \<Rightarrow> (Inr Undefined, s2))"
    by (simp add: chat_send_def io_bind_def pass(1,4) vector_len_def instance_call_def assms(5,6) call class_prefix_def
        io_return_def Let_def split: prod.splits sum.splits)
  then show ?thesis using pass(2,3) received_text [OF assms(3,4)] by (intro exI [of _ p] exI [of _ ?s1]) auto
qed

end
