(* ===== verification/Chat_Session.thy ===== *)
theory Chat_Session
  imports Chat_UI Glue_Messages
begin

text \<open>
  A page and its glue together: \<open>startTransport\<close>, the send button and the callback of
  \<open>examples/chat/chat.js\<close> on top of \<open>start_chat\<close>, \<open>chat.send\<close> and the imports of
  \<open>pkg/iroh_webrtc_transport.js\<close>. The page is the one of the page component, now with the calls that
  may throw; an exception of a handler and a rejection nobody awaits are reported to the console.
\<close>

record 'w session =
  s_page :: page
  s_glue :: "'w state"
  s_role :: "role option"
  s_channel :: jsval
  s_callback :: jsval
  s_starting :: bool
  s_handle :: "nat option"
  s_console :: "jsval list"

subsection \<open>Handlers\<close>

text \<open>\<open>$("send").onclick\<close>: nothing is shown when \<open>chat.send\<close> throws.\<close>

definition on_send :: "'w env \<Rightarrow> 'w session \<Rightarrow> 'w session" where
  "on_send E S =
     (let t = js_trim (input_value (s_page S)) in
      case s_handle S of
        None \<Rightarrow> S
      | Some h \<Rightarrow>
          if t = [] then S
          else (case chat_send E h t (s_glue S) of
                  (Inl e, g) \<Rightarrow> S\<lparr>s_glue := g, s_console := s_console S @ [e]\<rparr>
                | (Inr r, g) \<Rightarrow> S\<lparr>s_glue := g, s_page := (addMsg Me t ((s_page S)\<lparr>sent := sent (s_page S) @ [t]\<rparr>))\<lparr>input_value := []\<rparr>\<rparr>))"

text \<open>\<open>dc.onopen\<close>, \<open>startTransport\<close> up to its second await.\<close>

definition on_open :: "'w env \<Rightarrow> 'w session \<Rightarrow> 'w session" where
  "on_open E S =
     (case start_args (s_role S) of (my_seed, remote_seed, initiator) \<Rightarrow>
        case start_chat E (s_channel S) (Num (int my_seed)) (Num (int remote_seed)) (Boolean initiator) (s_callback S) (s_glue S) of
          (Inl e, g) \<Rightarrow> S\<lparr>s_glue := g, s_console := s_console S @ [e]\<rparr>
        | (Inr p, g) \<Rightarrow> S\<lparr>s_glue := g, s_starting := True\<rparr>)"

text \<open>The module makes the chat object, and the promise is fulfilled with it.\<close>

definition on_started :: "'w env \<Rightarrow> nat \<Rightarrow> 'w session \<Rightarrow> 'w session" where
  "on_started E ptr S =
     (if s_starting S then
        (case run_import E ''__wbg_chat_new'' [Num (int ptr)] (s_glue S) of
           (Inr (Instance h), g) \<Rightarrow> S\<lparr>s_glue := g, s_starting := False, s_handle := Some h, s_page := start_done (s_page S)\<rparr>
         | (r, g) \<Rightarrow> S\<lparr>s_glue := g\<rparr>)
      else S)"

definition on_start_failed :: "jsval \<Rightarrow> 'w session \<Rightarrow> 'w session" where
  "on_start_failed e S = (if s_starting S then S\<lparr>s_starting := False, s_console := s_console S @ [e]\<rparr> else S)"

text \<open>The module makes a string of its memory and calls the callback with it.\<close>

definition on_text :: "'w env \<Rightarrow> 32 word \<Rightarrow> nat \<Rightarrow> 'w session \<Rightarrow> 'w session" where
  "on_text E q len S =
     (case run_import E ''__wbindgen_cast_0000000000000009'' [Num (uint q), Num (int len)] (s_glue S) of
        (Inr (Str t), g) \<Rightarrow> S\<lparr>s_glue := g, s_page := addMsg Peer t (s_page S)\<rparr>
      | (r, g) \<Rightarrow> S\<lparr>s_glue := g\<rparr>)"

datatype session_event =
    Opened
  | Started nat
  | StartFailed jsval
  | Clicked
  | Key jsstring
  | Typed jsstring
  | Received "32 word" nat
  | Notice ui_event

text \<open>Events of the page that do not concern the transport are \<open>Notice\<close>s.\<close>

fun is_notice :: "ui_event \<Rightarrow> bool" where
  "is_notice (ConnectionState c) \<longleftrightarrow> True"
| "is_notice (StunMessage m) \<longleftrightarrow> True"
| "is_notice OpenHint \<longleftrightarrow> True"
| "is_notice e \<longleftrightarrow> False"

definition click_send :: "'w env \<Rightarrow> 'w session \<Rightarrow> 'w session" where
  "click_send E S = (if send_disabled (s_page S) then S else on_send E S)"

fun session_step :: "'w env \<Rightarrow> session_event \<Rightarrow> 'w session \<Rightarrow> 'w session" where
  "session_step E Opened S = on_open E S"
| "session_step E (Started ptr) S = on_started E ptr S"
| "session_step E (StartFailed e) S = on_start_failed e S"
| "session_step E Clicked S = click_send E S"
| "session_step E (Key k) S = (if \<not> input_disabled (s_page S) \<and> k = js ''Enter'' then click_send E S else S)"
| "session_step E (Typed t) S = S\<lparr>s_page := ui_step (TypeText t) (s_page S)\<rparr>"
| "session_step E (Received q len) S = on_text E q len S"
| "session_step E (Notice e) S = (if is_notice e then S\<lparr>s_page := ui_step e (s_page S)\<rparr> else S)"

definition fresh_session :: "role option \<Rightarrow> jsval \<Rightarrow> jsval \<Rightarrow> 'w state \<Rightarrow> 'w session" where
  "fresh_session r dc callback g = \<lparr>s_page = initial_page, s_glue = g, s_role = r, s_channel = dc, s_callback = callback,
     s_starting = False, s_handle = None, s_console = []\<rparr>"

definition session_run :: "'w env \<Rightarrow> session_event list \<Rightarrow> 'w session \<Rightarrow> 'w session" where
  "session_run E es S = fold (session_step E) es S"

end
