(* ===== verification/Chat_Session_Correct.thy ===== *)
theory Chat_Session_Correct
  imports Chat_Session
begin

text \<open>
  The page on top of the glue does what the page alone promises, with exceptions of the module taken
  into account, and what is typed into one page is shown by the other.
\<close>

subsection \<open>Refinement of the page\<close>

text \<open>The module calls back only by making objects: the instances there are keep their classes.\<close>

definition keeps_instances :: "'w env \<Rightarrow> bool" where
  "keeps_instances E \<longleftrightarrow> (\<forall>f args s. case x_invoke E f args s of (r, s') \<Rightarrow>
     length (instances s) \<le> length (instances s') \<and>
     (\<forall>k<length (instances s). o_class (instances s' ! k) = o_class (instances s ! k)))"

definition session_inv :: "'w session \<Rightarrow> bool" where
  "session_inv S \<longleftrightarrow> (chat (s_page S) \<longleftrightarrow> s_handle S \<noteq> None) \<and> ui_inv (s_page S) \<and>
     (\<forall>h. s_handle S = Some h \<longrightarrow> h < length (instances (s_glue S)) \<and> o_class (instances (s_glue S) ! h) = Chat)"

definition grows :: "'w state \<Rightarrow> 'w state \<Rightarrow> bool" where
  "grows s s' \<longleftrightarrow> length (instances s) \<le> length (instances s') \<and>
     (\<forall>k<length (instances s). o_class (instances s' ! k) = o_class (instances s ! k))"

lemma grows_refl [simp]: "grows s s"
  by (simp add: grows_def)

lemma grows_trans: "grows s t \<Longrightarrow> grows t u \<Longrightarrow> grows s u"
  by (auto simp: grows_def)

lemma grows_invoke: "keeps_instances E \<Longrightarrow> x_invoke E f args s = (r, s') \<Longrightarrow> grows s s'"
  unfolding keeps_instances_def grows_def by (metis (mono_tags, lifting) case_prod_conv)

lemma grows_same: "instances s' = instances s \<Longrightarrow> grows s s'"
  by (simp add: grows_def)

lemma grows_bind:
  assumes "io_bind m f s = (r, s')" "\<And>r t. m s = (r, t) \<Longrightarrow> grows s t" "\<And>x t r u. f x t = (r, u) \<Longrightarrow> grows t u"
  shows "grows s s'"
  using assms grows_trans by (fastforce simp: io_bind_def split: prod.splits sum.splits)

lemma grows_pass_string: "pass_string E t s = (r, s') \<Longrightarrow> grows s s'"
  by (rule grows_same) (auto simp: pass_string_def split: sum.splits prod.splits)

lemma grows_vector_len: "vector_len s = (r, s') \<Longrightarrow> grows s s'"
  by (simp add: vector_len_def)

lemma call_method_class: "call_method m obj = Some obj' \<Longrightarrow> o_class obj' = o_class obj"
  by (auto simp: call_method_def destroy_into_raw_def split: option.splits passing.splits)

lemma grows_instance_call:
  assumes "keeps_instances E" "instance_call E n m args s = (r, s')"
  shows "grows s s'"
proof (cases "n < length (instances s) \<and> call_method m (instances s ! n) \<noteq> None")
  case False
  then show ?thesis using assms(2) by (auto simp: instance_call_def Let_def split: if_splits)
next
  case True
  then obtain obj where obj: "call_method m (instances s ! n) = Some obj" by auto
  let ?s = "s\<lparr>instances := (instances s)[n := obj]\<rparr>"
  have "grows s ?s" using call_method_class [OF obj] True by (simp add: grows_def nth_list_update)
  moreover have "grows ?s s'"
  proof (rule grows_bind)
    show "io_bind (x_invoke E (class_prefix (o_class (instances s ! n)) @ ''_'' @ m) (Num (int (o_ptr (instances s ! n))) # args))
        (\<lambda>ret. io_return (arg ret 0)) ?s = (r, s')"
      using assms(2) True obj by (simp add: instance_call_def Let_def)
  qed (auto simp: io_return_def dest: grows_invoke [OF assms(1)])
  ultimately show ?thesis by (rule grows_trans)
qed

lemma grows_chat_send:
  assumes "keeps_instances E" "chat_send E h t s = (r, s')"
  shows "grows s s'"
  using assms(2) unfolding chat_send_def
proof (rule grows_bind)
  fix x u v w
  assume "io_bind vector_len (\<lambda>len0. io_bind (instance_call E h ''send'' [Num (uint x), Num (uint len0)])
     (\<lambda>_. io_return Undefined)) u = (v, w)"
  then show "grows u w"
  proof (rule grows_bind)
    fix len0 u v w
    assume "io_bind (instance_call E h ''send'' [Num (uint x), Num (uint len0)]) (\<lambda>_. io_return Undefined) u = (v, w)"
    then show "grows u w" by (rule grows_bind) (auto simp: io_return_def dest: grows_instance_call [OF assms(1)])
  qed (rule grows_vector_len)
qed (rule grows_pass_string)

lemma grows_start_chat: "keeps_instances E \<Longrightarrow> start_chat E dc x y i f s = (r, s') \<Longrightarrow> grows s s'"
  unfolding start_chat_def by (erule grows_bind) (auto simp: io_return_def dest: grows_invoke)

lemma grows_text: "run_import E ''__wbindgen_cast_0000000000000009'' [Num (uint q), Num (int len)] s = (r, s') \<Longrightarrow> grows s s'"
  by (rule grows_same)
    (auto simp: run_import_def run_entry_def text_import text_arg_def get_string_def io_bind_def io_result_def io_throw_def
      io_return_def split: prod.splits sum.splits)

lemma chat_import: "map_of (import_table E) ''__wbg_chat_new'' = Some (False, wrap_arg Chat)"
  by (simp add: import_table_def imports_1_def)

lemma chat_new:
  "run_import E ''__wbg_chat_new'' [Num (int ptr)] s =
    (Inr (Instance (length (instances s))), s\<lparr>instances := instances s @ [wrap Chat (unat (i32 (Num (int ptr))))]\<rparr>)"
  by (simp add: run_import_def run_entry_def chat_import wrap_arg_def wrap_instance_def arg_def)

lemma grows_started: "grows s (s\<lparr>instances := instances s @ [obj]\<rparr>)"
  by (simp add: grows_def nth_append)

text \<open>Every handler keeps the page a page, and what it does to it are events of the page.\<close>

lemma inv_glue:
  "session_inv S \<Longrightarrow> grows (s_glue S) g \<Longrightarrow> session_inv (S\<lparr>s_glue := g\<rparr>)"
  by (auto simp: session_inv_def grows_def)

lemma inv_console [simp]: "session_inv (S\<lparr>s_console := c\<rparr>) = session_inv S" "session_inv (S\<lparr>s_starting := b\<rparr>) = session_inv S"
  by (simp_all add: session_inv_def)

lemma chat_step: "chat (ui_step e p) \<longleftrightarrow> chat p \<or> e = StartDone"
  by (cases e) (auto simp: click_def send_click_def start_done_def enableChat_def setStatus_def Let_def)

lemma inv_page: "session_inv S \<Longrightarrow> e \<noteq> StartDone \<Longrightarrow> session_inv (S\<lparr>s_page := ui_step e (s_page S)\<rparr>)"
  by (simp add: session_inv_def chat_step ui_inv_step)

text \<open>Whether a press of the button sends: there is a chat and \<open>chat.send\<close> returns.\<close>

definition sends :: "'w env \<Rightarrow> 'w session \<Rightarrow> bool" where
  "sends E S \<longleftrightarrow> (case s_handle S of None \<Rightarrow> False
     | Some h \<Rightarrow> \<not> isl (fst (chat_send E h (js_trim (input_value (s_page S))) (s_glue S))))"

text \<open>The events of the page an event of the session amounts to.\<close>

definition effect :: "'w env \<Rightarrow> session_event \<Rightarrow> 'w session \<Rightarrow> ui_event list" where
  "effect E e S = (case e of
       Started ptr \<Rightarrow> if s_starting S then [StartDone] else []
     | Clicked \<Rightarrow> if sends E S then [SendClick] else []
     | Key k \<Rightarrow> if sends E S then [KeyDown k] else []
     | Typed t \<Rightarrow> [TypeText t]
     | Received q len \<Rightarrow>
         (case fst (run_import E ''__wbindgen_cast_0000000000000009'' [Num (uint q), Num (int len)] (s_glue S)) of
            Inr (Str t) \<Rightarrow> [PeerText t] | _ \<Rightarrow> [])
     | Notice u \<Rightarrow> if is_notice u then [u] else []
     | _ \<Rightarrow> [])"

fun effects :: "'w env \<Rightarrow> session_event list \<Rightarrow> 'w session \<Rightarrow> ui_event list" where
  "effects E [] S = []"
| "effects E (e # es) S = effect E e S @ effects E es (session_step E e S)"

lemma send_inv:
  assumes "session_inv S" "keeps_instances E"
  shows "session_inv (click_send E S)"
    "s_page (click_send E S) = (if sends E S then click (s_page S) else s_page S)"
proof -
  let ?t = "js_trim (input_value (s_page S))"
  have "session_inv (click_send E S) \<and> s_page (click_send E S) = (if sends E S then click (s_page S) else s_page S)"
  proof (cases "s_handle S")
    case None
    then show ?thesis using assms(1) by (simp add: click_send_def on_send_def sends_def)
  next
    case (Some h)
    obtain r g where send: "chat_send E h ?t (s_glue S) = (r, g)" by fastforce
    have chat: "chat (s_page S)" "\<not> send_disabled (s_page S)" using assms(1) Some by (auto simp: session_inv_def ui_inv_def)
    have g: "session_inv (S\<lparr>s_glue := g\<rparr>)" using inv_glue [OF assms(1)] grows_chat_send [OF assms(2) send] by blast
    show ?thesis
    proof (cases "?t = []")
      case True
      then show ?thesis using assms(1) Some chat by (simp add: click_send_def on_send_def click_def send_click_def)
    next
      case t: False
      show ?thesis
      proof (cases r)
        case (Inl e)
        then show ?thesis using g Some t send chat by (simp add: click_send_def on_send_def sends_def)
      next
        case (Inr x)
        then have "s_page (click_send E S) = click (s_page S)" "sends E S"
          "click_send E S = S\<lparr>s_glue := g, s_page := ui_step SendClick (s_page S)\<rparr>"
          using Some t send chat by (simp_all add: click_send_def on_send_def sends_def click_def send_click_def Let_def)
        then show ?thesis using inv_page [OF g, of SendClick] by simp
      qed
    qed
  qed
  then show "session_inv (click_send E S)" "s_page (click_send E S) = (if sends E S then click (s_page S) else s_page S)"
    by blast+
qed

lemma text_inv:
  assumes "session_inv S"
  shows "session_inv (on_text E q len S)" "s_page (on_text E q len S) = fold ui_step (effect E (Received q len) S) (s_page S)"
proof -
  obtain r g where r: "run_import E ''__wbindgen_cast_0000000000000009'' [Num (uint q), Num (int len)] (s_glue S) = (r, g)"
    by fastforce
  have g: "session_inv (S\<lparr>s_glue := g\<rparr>)" using inv_glue [OF assms] grows_text [OF r] by blast
  have "session_inv (S\<lparr>s_glue := g, s_page := addMsg Peer t (s_page S)\<rparr>)" for t using inv_page [OF g, of "PeerText t"] by simp
  then show "session_inv (on_text E q len S)" "s_page (on_text E q len S) = fold ui_step (effect E (Received q len) S) (s_page S)"
    using g r by (auto simp: on_text_def effect_def split: sum.splits jsval.splits)
qed

lemma started_inv:
  assumes "session_inv S"
  shows "session_inv (on_started E ptr S)"
    "s_page (on_started E ptr S) = fold ui_step (effect E (Started ptr) S) (s_page S)"
proof -
  have page: "ui_inv (start_done (s_page S))" "chat (start_done (s_page S))"
    using assms ui_inv_step [of "s_page S" StartDone] chat_step [of StartDone "s_page S"] by (auto simp: session_inv_def)
  show "session_inv (on_started E ptr S)"
    using assms page by (auto simp: on_started_def chat_new session_inv_def wrap_def nth_append)
  show "s_page (on_started E ptr S) = fold ui_step (effect E (Started ptr) S) (s_page S)"
    by (simp add: on_started_def chat_new effect_def)
qed

lemma opened_inv:
  assumes "session_inv S" "keeps_instances E"
  shows "session_inv (on_open E S)" "s_page (on_open E S) = s_page S"
proof -
  obtain m r i where a: "start_args (s_role S) = (m, r, i)" by (cases "start_args (s_role S)")
  obtain x g where x: "start_chat E (s_channel S) (Num (int m)) (Num (int r)) (Boolean i) (s_callback S) (s_glue S) = (x, g)"
    by fastforce
  then have g: "session_inv (S\<lparr>s_glue := g\<rparr>)" using inv_glue [OF assms(1)] grows_start_chat [OF assms(2) x] by blast
  then show "session_inv (on_open E S)" "s_page (on_open E S) = s_page S"
    using a x by (auto simp: on_open_def split: sum.splits)
qed

lemma session_step_inv:
  assumes "session_inv S" "keeps_instances E"
  shows "session_inv (session_step E e S)" "s_page (session_step E e S) = fold ui_step (effect E e S) (s_page S)"
proof -
  have input: "input_disabled (s_page S) = send_disabled (s_page S)" using assms(1) by (auto simp: session_inv_def ui_inv_def)
  have off: "send_disabled (s_page S) \<Longrightarrow> click_send E S = S" by (simp add: click_send_def)
  have notice: "is_notice u \<Longrightarrow> u \<noteq> StartDone" for u by auto
  show "session_inv (session_step E e S)"
    using assms send_inv(1) [OF assms] text_inv(1) [OF assms(1)] started_inv(1) [OF assms(1)] opened_inv(1) [OF assms]
      inv_page [OF assms(1)] notice
    by (cases e) (auto simp: on_start_failed_def simp del: ui_step.simps)
  show "s_page (session_step E e S) = fold ui_step (effect E e S) (s_page S)"
    using send_inv(2) [OF assms] text_inv(2) [OF assms(1)] started_inv(2) [OF assms(1)] opened_inv(2) [OF assms] input off
    by (cases e) (auto simp: effect_def on_start_failed_def click_def)
qed

lemma session_run_inv:
  assumes "session_inv S" "keeps_instances E"
  shows "session_inv (session_run E es S) \<and> s_page (session_run E es S) = fold ui_step (effects E es S) (s_page S)"
  using assms(1)
proof (induction es arbitrary: S)
  case (Cons e es)
  show ?case
    using Cons.IH [OF session_step_inv(1) [OF Cons.prems assms(2)]] session_step_inv(2) [OF Cons.prems assms(2), of e]
    by (simp add: session_run_def)
qed (simp add: session_run_def)

lemma fresh_session_inv: "session_inv (fresh_session r dc f g)"
  using ui_inv_run [of "[]"] by (simp add: session_inv_def fresh_session_def run_page_def) (simp add: initial_page_def)

subsection \<open>The properties\<close>

text \<open>
  C9: the page on the glue refines the page. Whatever happens in a session, the page is the one the
  page component reaches with the events that took effect: a press of the button that sends, and
  only then, is a click, a text the module could hand over is a peer's message. So its invariant
  holds, a chat handle is there exactly when the page has one, and the handle is always an object of
  the class \<open>Chat\<close> in the glue.
\<close>

theorem session_refines_page:
  assumes "keeps_instances E"
  shows "s_page (session_run E evs (fresh_session r dc f g)) = run_page (effects E evs (fresh_session r dc f g)) \<and>
    session_inv (session_run E evs (fresh_session r dc f g))"
  using session_run_inv [OF fresh_session_inv assms] by (simp add: run_page_def fresh_session_def)

lemma sample_keeps: "keeps_instances sample_env"
  by (simp add: keeps_instances_def sample_env_def io_return_def)

definition sample_session :: "unit session" where
  "sample_session = session_run sample_env [Opened, Started 1048, Typed (js ''hi'')] (fresh_session (Some Offerer) (Object 1) (Func 2) sample_state)"

lemma sample_invoke: "x_invoke sample_env f vs s = (Inr [], s)"
  by (simp add: sample_env_def io_return_def)

lemma sample_chat_new:
  "run_import sample_env ''__wbg_chat_new'' [Num 1048] s = (Inr (Instance (length (instances s))), s\<lparr>instances := instances s @ [wrap Chat 1048]\<rparr>)"
  using chat_new [of sample_env 1048 s] by (simp add: i32_def)

lemma sample_session_simp:
  "sample_session = (fresh_session (Some Offerer) (Object 1) (Func 2) (sample_state\<lparr>instances := [wrap Chat 1048]\<rparr>))
     \<lparr>s_page := ui_step (TypeText (js ''hi'')) (start_done initial_page), s_handle := Some 0\<rparr>"
  by (simp add: sample_session_def session_run_def on_open_def on_started_def sample_chat_new start_args_def start_chat_def io_bind_def
      io_return_def sample_invoke fresh_session_def) (simp add: sample_state_def)

theorem session_refines_page_witness:
  "s_page sample_session = run_page [StartDone, TypeText (js ''hi'')] \<and> session_inv sample_session"
proof -
  have "effects sample_env [Opened, Started 1048, Typed (js ''hi'')] (fresh_session (Some Offerer) (Object 1) (Func 2) sample_state) =
      [StartDone, TypeText (js ''hi'')]"
    by (simp add: effect_def on_open_def start_args_def start_chat_def io_bind_def io_return_def sample_invoke fresh_session_def)
  then show ?thesis
    using session_refines_page [OF sample_keeps, of "[Opened, Started 1048, Typed (js ''hi'')]" "Some Offerer" "Object 1" "Func 2" sample_state]
    by (simp add: sample_session_def)
qed

text \<open>
  C8: what is typed into one page is shown by the other. In any session with a chat, the send button
  hands the module the trimmed text of the input box as UTF-8 in its memory. If the module returns,
  the page shows the text as its own last message and empties the box; if it throws, the error goes to
  the console and the page stays as it is. Wherever the peer's module has the same bytes when it
  calls back, the peer's page shows the same text as the peer's last message.
\<close>

theorem typed_text_reaches_peer:
  assumes "keeps_instances E" "allocates (x_malloc E)" "regrows (x_realloc E)"
    and "S = session_run E evs (fresh_session r dc f g)" "s_handle S = Some h"
    and "t = js_trim (input_value (s_page S))" "t \<noteq> []" "well_formed t" "3 * length t < 2 ^ 31"
  shows "\<exists>p g1. region (mem (glue g1)) p (length (text_encode t)) = text_encode t \<and>
    unat p + length (text_encode t) \<le> mem_size (mem (glue g1)) \<and>
    (case x_invoke E ''chat_send'' [Num (int (o_ptr (instances (s_glue S) ! h))), Num (uint p), Num (int (length (text_encode t)))] g1 of
       (Inl e, g2) \<Rightarrow> session_step E Clicked S = S\<lparr>s_glue := g2, s_console := s_console S @ [e]\<rparr>
     | (Inr x, g2) \<Rightarrow> bubbles Me (s_page (session_step E Clicked S)) = bubbles Me (s_page S) @ [t] \<and>
         input_value (s_page (session_step E Clicked S)) = [] \<and> s_console (session_step E Clicked S) = s_console S) \<and>
    (\<forall>E' (S' :: 'v session) q. region (mem (glue (s_glue S'))) q (length (text_encode t)) = region (mem (glue g1)) p (length (text_encode t)) \<and>
       unat q + length (text_encode t) \<le> mem_size (mem (glue (s_glue S'))) \<longrightarrow>
       bubbles Peer (s_page (session_step E' (Received q (length (text_encode t))) S')) = bubbles Peer (s_page S') @ [t])"
proof -
  have inv: "session_inv S" using session_run_inv [OF fresh_session_inv assms(1)] assms(4) by simp
  have h: "h < length (instances (s_glue S))" "o_class (instances (s_glue S) ! h) = Chat"
    and on: "\<not> send_disabled (s_page S)"
    using inv assms(5) by (auto simp: session_inv_def ui_inv_def)
  obtain p g1 where m: "region (mem (glue g1)) p (length (text_encode t)) = text_encode t"
    "unat p + length (text_encode t) \<le> mem_size (mem (glue g1))"
    "chat_send E h t (s_glue S) =
      (case x_invoke E ''chat_send'' [Num (int (o_ptr (instances (s_glue S) ! h))), Num (uint p), Num (int (length (text_encode t)))] g1 of
         (Inl e, s2) \<Rightarrow> (Inl e, s2) | (Inr r, s2) \<Rightarrow> (Inr Undefined, s2))"
    "\<And>E' (s' :: 'v state) q. region (mem (glue s')) q (length (text_encode t)) = region (mem (glue g1)) p (length (text_encode t)) \<Longrightarrow>
       unat q + length (text_encode t) \<le> mem_size (mem (glue s')) \<Longrightarrow>
       fst (run_import E' ''__wbindgen_cast_0000000000000009'' [Num (uint q), Num (int (length (text_encode t)))] s') = Inr (Str t)"
    using chat_message_arrives [OF assms(2,3,8,9) h] by blast
  have step: "session_step E Clicked S = on_send E S" using on by (simp add: click_send_def)
  have sent: "(case x_invoke E ''chat_send'' [Num (int (o_ptr (instances (s_glue S) ! h))), Num (uint p), Num (int (length (text_encode t)))] g1 of
       (Inl e, g2) \<Rightarrow> session_step E Clicked S = S\<lparr>s_glue := g2, s_console := s_console S @ [e]\<rparr>
     | (Inr x, g2) \<Rightarrow> bubbles Me (s_page (session_step E Clicked S)) = bubbles Me (s_page S) @ [t] \<and>
         input_value (s_page (session_step E Clicked S)) = [] \<and> s_console (session_step E Clicked S) = s_console S)"
    unfolding step using m(3) assms(5-7) by (auto simp: on_send_def Let_def split: prod.splits sum.splits)
  have "bubbles Peer (s_page (session_step E' (Received q (length (text_encode t))) S')) = bubbles Peer (s_page S') @ [t]"
    if "region (mem (glue (s_glue S'))) q (length (text_encode t)) = region (mem (glue g1)) p (length (text_encode t))"
       "unat q + length (text_encode t) \<le> mem_size (mem (glue (s_glue S')))" for E' and S' :: "'v session" and q
  proof -
    note run = m(4) [OF that]
    obtain g' where "run_import E' ''__wbindgen_cast_0000000000000009'' [Num (uint q), Num (int (length (text_encode t)))] (s_glue S') = (Inr (Str t), g')"
      using run [of E'] by (metis prod.collapse)
    then show ?thesis by (simp add: on_text_def)
  qed
  then show ?thesis by (intro exI [of _ p] exI [of _ g1] conjI m(1,2) sent) blast
qed

theorem typed_text_reaches_peer_witness:
  "bubbles Me (s_page (session_step sample_env Clicked sample_session)) = bubbles Me (s_page sample_session) @ [js ''hi''] \<and>
   s_console (session_step sample_env Clicked sample_session) = s_console sample_session"
proof -
  let ?t = "js_trim (input_value (s_page sample_session))"
  have alloc: "allocates (x_malloc sample_env)" "regrows (x_realloc sample_env)" using growing_ok by (simp_all add: sample_env_def)
  have h: "s_handle sample_session = Some 0" by (simp add: sample_session_simp)
  have t: "?t = js ''hi''"
    by (simp add: sample_session_simp start_done_def enableChat_def setStatus_def js_trim_def js_space_def js_def)
  then have ok: "?t \<noteq> []" "well_formed ?t" "3 * length ?t < 2 ^ 31"
    by (simp_all add: js_def well_formed_def scalar_def high_surrogate_def low_surrogate_def)
  show ?thesis
    using typed_text_reaches_peer [OF sample_keeps alloc sample_session_def h refl ok] unfolding sample_invoke t by auto
qed

text \<open>When starting the transport fails, the page is not told: it goes on waiting.\<close>

lemma failed_start_is_silent:
  "s_page (session_step E (StartFailed e) S) = s_page S"
  "s_starting S \<Longrightarrow> s_console (session_step E (StartFailed e) S) = s_console S @ [e]"
  by (simp_all add: on_start_failed_def)

end
