(* ===== verification/Serve.thy ===== *)
theory Serve
  imports JS_URI
begin

text \<open>
  The static file server \<open>examples/chat/serve.mjs\<close>: from the request target to a file URL under
  \<open>ROOT\<close>, to a path of the file system, to a response. The URL parser, \<open>fileURLToPath\<close> and
  \<open>path.extname\<close> are the ones of the platform; the file system is an argument. An exception thrown
  while a request is handled is not caught and ends the process.
\<close>

subsection \<open>\<open>new URL("." + p, ROOT)\<close>\<close>

text \<open>
  The parser drops control characters and spaces at the ends, and tabs and line ends anywhere. \<open>ROOT\<close>
  is a file URL, given by the segments of its directory; the fragment and the query do not matter.
\<close>

definition url_trimmed :: "16 word \<Rightarrow> bool" where
  "url_trimmed c \<longleftrightarrow> unat c \<le> 0x20"

definition url_clean :: "jsstring \<Rightarrow> jsstring" where
  "url_clean s = filter (\<lambda>c. unat c \<notin> {0x09, 0x0A, 0x0D})
     (rev (dropWhile url_trimmed (rev (dropWhile url_trimmed s))))"

definition path_encoded :: "nat \<Rightarrow> bool" where
  "path_encoded c \<longleftrightarrow> c \<le> 0x20 \<or> 0x7E < c \<or> c \<in> {0x22, 0x23, 0x3C, 0x3E, 0x3F, 0x5E, 0x60, 0x7B, 0x7D}"

definition encode_segment :: "jsstring \<Rightarrow> jsstring" where
  "encode_segment s = concat (map (\<lambda>c. if path_encoded c
       then map of_nat (concat (map pct (utf8 (if scalar c then c else 0xFFFD)))) else units c) (code_points s))"

definition lower_url :: "16 word \<Rightarrow> 16 word" where
  "lower_url c = (if c = 0x45 then 0x65 else c)"

definition single_dot :: "jsstring \<Rightarrow> bool" where
  "single_dot s \<longleftrightarrow> map lower_url s \<in> {js ''.'', js ''%2e''}"

definition double_dot :: "jsstring \<Rightarrow> bool" where
  "double_dot s \<longleftrightarrow> map lower_url s \<in> {js ''..'', js ''.%2e'', js ''%2e.'', js ''%2e%2e''}"

definition drive_letter :: "jsstring \<Rightarrow> bool" where
  "drive_letter s \<longleftrightarrow> (case s of
       [c, d] \<Rightarrow> (0x41 \<le> unat c \<and> unat c \<le> 0x5A \<or> 0x61 \<le> unat c \<and> unat c \<le> 0x7A) \<and> (d = 0x3A \<or> d = 0x7C)
     | _ \<Rightarrow> False)"

definition shorten :: "jsstring list \<Rightarrow> jsstring list" where
  "shorten path = (case path of
       [s] \<Rightarrow> if drive_letter s \<and> last s = 0x3A then path else []
     | _ \<Rightarrow> butlast path)"

definition add_segment :: "jsstring list \<Rightarrow> jsstring \<Rightarrow> jsstring list" where
  "add_segment path s = path @ [if path = [] \<and> drive_letter s then [hd s, 0x3A] else encode_segment s]"

fun walk :: "jsstring list \<Rightarrow> jsstring list \<Rightarrow> jsstring list" where
  "walk path [] = path"
| "walk path [s] = (if double_dot s then shorten path @ [[]] else if single_dot s then path @ [[]] else add_segment path s)"
| "walk path (s # ss) = walk (if double_dot s then shorten path else if single_dot s then path else add_segment path s) ss"

fun split_slash :: "jsstring \<Rightarrow> jsstring list" where
  "split_slash [] = [[]]"
| "split_slash (c # s) =
     (if c = 0x2F \<or> c = 0x5C then [] # split_slash s
      else (case split_slash s of [] \<Rightarrow> [[c]] | x # xs \<Rightarrow> (c # x) # xs))"

text \<open>The segments of \<open>new URL(s, ROOT)\<close>, for an \<open>s\<close> that starts with a dot.\<close>

definition resolve :: "jsstring list \<Rightarrow> jsstring \<Rightarrow> jsstring list" where
  "resolve base s = walk base (split_slash (takeWhile (\<lambda>c. c \<noteq> 0x3F \<and> c \<noteq> 0x23) (url_clean s)))"

definition url_pathname :: "jsstring list \<Rightarrow> jsstring" where
  "url_pathname path = concat (map (\<lambda>s. 0x2F # s) path)"

subsection \<open>\<open>fs.readFile\<close> of a file URL\<close>

text \<open>\<open>fileURLToPath\<close> refuses an encoded slash; a path with a NUL is refused by \<open>readFile\<close>.\<close>

definition file_path :: "jsstring list \<Rightarrow> jsstring result" where
  "file_path path =
     (if contains (js ''%2f'') (url_pathname path) \<or> contains (js ''%2F'') (url_pathname path)
      then Inl InvalidFileUrlPath
      else rbind (decodeURIComponent (url_pathname path)) (\<lambda>f. if 0 \<in> set f then Inl TypeError else Inr f))"

subsection \<open>\<open>path.extname\<close> and the content types\<close>

definition base_name :: "jsstring \<Rightarrow> jsstring" where
  "base_name p = rev (takeWhile (\<lambda>c. c \<noteq> 0x2F) (dropWhile (\<lambda>c. c = 0x2F) (rev p)))"

definition extname :: "jsstring \<Rightarrow> jsstring" where
  "extname p =
     (let b = base_name p; ext = rev (takeWhile (\<lambda>c. c \<noteq> 0x2E) (rev b)) in
      if 0x2E \<notin> set b \<or> length ext + 1 = length b \<or> b = js ''..'' then [] else 0x2E # ext)"

definition CT :: "(jsstring \<times> jsstring) list" where
  "CT = [(js ''.html'', js ''text/html''), (js ''.js'', js ''text/javascript''), (js ''.css'', js ''text/css''),
     (js ''.wasm'', js ''application/wasm''), (js ''.json'', js ''application/json''), (js ''.ts'', js ''text/plain'')]"

definition content_type :: "jsstring \<Rightarrow> jsstring" where
  "content_type p = (case map_of CT (extname p) of None \<Rightarrow> js ''application/octet-stream'' | Some t \<Rightarrow> t)"

subsection \<open>The request handler\<close>

datatype body = Text jsstring | Bytes "nat list"

record response =
  res_status :: nat
  res_type :: "jsstring option"
  res_body :: body

datatype outcome = Respond response | Crash js_error

definition request_path :: "jsstring \<Rightarrow> jsstring result" where
  "request_path url = rbind (decodeURIComponent (hd (split_on 0x3F (if url = [] then js ''/'' else url))))
     (\<lambda>p. Inr (if p = js ''/'' then js ''/index.html'' else p))"

definition respond :: "jsstring \<Rightarrow> nat list option \<Rightarrow> response" where
  "respond p data = (case data of
       None \<Rightarrow> \<lparr>res_status = 404, res_type = None, res_body = Text (js ''not found: '' @ p)\<rparr>
     | Some d \<Rightarrow> \<lparr>res_status = 200, res_type = Some (content_type p), res_body = Bytes d\<rparr>)"

definition handle :: "(jsstring \<Rightarrow> nat list option) \<Rightarrow> jsstring list \<Rightarrow> jsstring \<Rightarrow> outcome" where
  "handle files base url =
     (case rbind (request_path url) (\<lambda>p. rbind (file_path (resolve base (0x2E # p))) (\<lambda>f. Inr (p, f))) of
        Inl e \<Rightarrow> Crash e
      | Inr (p, f) \<Rightarrow> Respond (respond p (files f)))"

end
