(* ===== verification/Serve_Correct.thy ===== *)
theory Serve_Correct
  imports Serve
begin

text \<open>
  What the file server serves: the files below its root with their content types, the files outside
  it that a request reaches with dot segments, and the requests that end the process.
\<close>

subsection \<open>Ordinary names\<close>

text \<open>Characters that stand for themselves in every stage, and names that are no dot segments.\<close>

definition name_char :: "16 word \<Rightarrow> bool" where
  "name_char c \<longleftrightarrow> 0x20 < unat c \<and> unat c < 0x7F \<and> unat c \<notin> {0x22, 0x23, 0x25, 0x2F, 0x3C, 0x3E, 0x3F, 0x5C, 0x5E, 0x60, 0x7B, 0x7D}"

definition name :: "jsstring \<Rightarrow> bool" where
  "name s \<longleftrightarrow> s \<noteq> [] \<and> list_all name_char s \<and> \<not> single_dot s \<and> \<not> double_dot s \<and> \<not> drive_letter s"

definition slashed :: "jsstring list \<Rightarrow> jsstring" where
  "slashed ss = concat (map (\<lambda>s. 0x2F # s) ss)"

lemma slashed_simps [simp]: "slashed [] = []" "slashed (s # ss) = 0x2F # s @ slashed ss"
  "slashed (ss @ ts) = slashed ss @ slashed ts"
  by (simp_all add: slashed_def)

lemma pathname: "url_pathname ss = slashed ss"
  by (simp add: url_pathname_def slashed_def)

lemma unat_neq: "unat (c :: 16 word) \<noteq> unat d \<Longrightarrow> c \<noteq> d"
  by auto

lemma name_char_neq: "name_char c \<Longrightarrow> c \<noteq> 0x2F \<and> c \<noteq> 0x5C \<and> c \<noteq> 0x3F \<and> c \<noteq> 0x23 \<and> c \<noteq> 0x25 \<and> c \<noteq> 0"
  by (auto simp: name_char_def)

lemma name_code_points: "list_all name_char s \<Longrightarrow> code_points s = map unat s"
  by (rule code_points_ascii) (auto simp: list_all_iff name_char_def)

lemma name_encode: "list_all name_char s \<Longrightarrow> encode_segment s = s"
proof -
  assume s: "list_all name_char s"
  have "list_all name_char s \<Longrightarrow> concat (map (\<lambda>c. units (unat c)) s) = s" by (induction s) auto
  moreover have "\<forall>c\<in>set s. \<not> path_encoded (unat c)" using s by (auto simp: list_all_iff name_char_def path_encoded_def)
  then have "encode_segment s = concat (map (\<lambda>c. units (unat c)) s)"
    by (simp add: encode_segment_def name_code_points [OF s] comp_def cong: map_cong)
  ultimately show "encode_segment s = s" using s by simp
qed

lemma split_slash_nonempty [simp]: "split_slash s \<noteq> []"
  by (cases s) (auto split: list.splits)

lemma split_slash_name: "list_all name_char s \<Longrightarrow> split_slash (s @ 0x2F # r) = s # split_slash r"
  by (induction s) (auto dest: name_char_neq)

lemma split_slash_last: "list_all name_char s \<Longrightarrow> split_slash s = [s]"
  by (induction s) (auto dest: name_char_neq)

lemma split_slash_slashed:
  "list_all (list_all name_char) ss \<Longrightarrow> list_all name_char s \<Longrightarrow> split_slash (s @ slashed ss) = s # ss"
  by (induction ss arbitrary: s) (auto simp: split_slash_name split_slash_last)

lemma walk_names:
  "list_all name ss \<Longrightarrow> ss \<noteq> [] \<Longrightarrow> walk path ss = path @ ss"
proof (induction path ss rule: walk.induct)
  case (2 path s)
  then show ?case by (simp add: name_def add_segment_def name_encode)
next
  case (3 path s v va)
  then show ?case by (simp add: name_def add_segment_def name_encode)
qed simp

lemma dot_segments:
  "double_dot (js ''..'')" "\<not> double_dot (js ''.'')" "single_dot (js ''.'')" "\<not> single_dot (js ''..'')"
  by (simp_all add: double_dot_def single_dot_def js_def lower_url_def)

lemma shorten_snoc: "path \<noteq> [] \<Longrightarrow> shorten (path @ [s]) = path"
  by (cases path) (auto simp: shorten_def split: list.splits)

text \<open>Dot-dot segments climb.\<close>

lemma walk_up:
  assumes "list_all name ss" "ss \<noteq> []" "outer \<noteq> []"
  shows "walk (outer @ dirs) (replicate (length dirs) (js ''..'') @ ss) = outer @ ss"
proof (induction dirs rule: rev_induct)
  case Nil
  then show ?case using walk_names assms(1,2) by simp
next
  case (snoc d dirs)
  obtain s ss' where "replicate (length dirs) (js ''..'') @ ss = s # ss'"
    using assms(2) by (cases "replicate (length dirs) (js ''..'') @ ss") auto
  then have "walk (outer @ dirs @ [d]) (js ''..'' # replicate (length dirs) (js ''..'') @ ss)
      = walk (shorten ((outer @ dirs) @ [d])) (replicate (length dirs) (js ''..'') @ ss)"
    by (simp add: dot_segments)
  moreover have "shorten (outer @ dirs @ [d]) = outer @ dirs" using shorten_snoc [of "outer @ dirs" d] assms(3) by simp
  ultimately show ?case using snoc by simp
qed

subsection \<open>The stages on printable targets\<close>

definition printable :: "jsstring \<Rightarrow> bool" where
  "printable s \<longleftrightarrow> (\<forall>c\<in>set s. 0x20 < unat c \<and> unat c < 0x7F)"

lemma clean_printable: "printable s \<Longrightarrow> url_clean s = s"
proof -
  assume p: "printable s"
  have "dropWhile url_trimmed t = t" if "\<forall>c\<in>set t. 0x20 < unat c" for t
    using that by (cases t) (auto simp: url_trimmed_def)
  moreover have "filter (\<lambda>c. unat c \<notin> {0x09, 0x0A, 0x0D}) s = s" using p by (auto simp: printable_def filter_id_conv)
  ultimately show "url_clean s = s" using p by (simp add: url_clean_def printable_def)
qed

lemma take_all_path: "\<forall>c\<in>set s. c \<noteq> 0x3F \<and> c \<noteq> 0x23 \<Longrightarrow> takeWhile (\<lambda>c. c \<noteq> 0x3F \<and> c \<noteq> 0x23) s = s"
  by (simp add: takeWhile_eq_all_conv)

lemma decode_plain: "\<forall>c\<in>set s. unat c \<noteq> 0x25 \<Longrightarrow> decodeURIComponent s = Inr s"
  by (induction s) simp_all

lemma decode_prefix:
  "\<forall>c\<in>set s. unat c \<noteq> 0x25 \<Longrightarrow> decodeURIComponent (s @ r) = rbind (decodeURIComponent r) (\<lambda>t. Inr (s @ t))"
  by (induction s) (simp_all add: rbind_assoc rbind_return)

lemma contains_append: "contains p s \<Longrightarrow> contains p (r @ s)"
  by (induction r) simp_all

lemma starts_with_head: "starts_with (p # ps) s \<Longrightarrow> p \<in> set s"
  by (cases s) auto

lemma contains_tail:
  "\<forall>c\<in>set s. c \<noteq> p \<Longrightarrow> contains (p # ps) (s @ r) = contains (p # ps) r"
  by (induction s) auto

lemma contains_head: "contains (p # ps) s \<Longrightarrow> p \<in> set s"
  by (induction s) (auto dest: starts_with_head)

lemma file_path_plain:
  assumes "list_all (list_all name_char) ss"
  shows "file_path ss = Inr (slashed ss)"
proof -
  have "c \<in> set (slashed ss) \<Longrightarrow> c = 0x2F \<or> name_char c" for c
    using assms by (auto simp: slashed_def list_all_iff split: if_splits)
  then have plain: "\<forall>c\<in>set (slashed ss). unat c \<noteq> 0x25 \<and> c \<noteq> 0x25 \<and> c \<noteq> 0"
    by (fastforce simp: name_char_def dest: name_char_neq)
  then have "\<not> contains (js ''%2f'') (slashed ss)" "\<not> contains (js ''%2F'') (slashed ss)"
    by (auto simp: js_def dest: contains_head)
  moreover have "decodeURIComponent (slashed ss) = Inr (slashed ss)" using plain by (simp add: decode_plain)
  ultimately show ?thesis using plain by (auto simp: file_path_def pathname)
qed

lemma name_names: "list_all name ss \<Longrightarrow> list_all (list_all name_char) ss"
  by (auto simp: list_all_iff name_def)

lemma up_chars: "c \<in> set (slashed (replicate k (js ''..''))) \<Longrightarrow> c = 0x2F \<or> c = 0x2E"
  by (auto simp: slashed_def js_def split: if_splits)

text \<open>A target of dot-dot segments and names, with or without a query, reaches the resolver as it is.\<close>

lemma request_names:
  assumes "list_all name ss" "ss \<noteq> []" "q = [] \<or> hd q = 0x3F"
  shows "request_path (slashed (replicate k (js ''..'') @ ss) @ q) = Inr (slashed (replicate k (js ''..'') @ ss))"
proof -
  let ?p = "slashed (replicate k (js ''..'') @ ss)"
  have chars: "c \<in> set ?p \<Longrightarrow> c \<in> {0x2F, 0x2E} \<or> name_char c" for c
    using assms(1) up_chars [of c k] by (auto simp: slashed_def list_all_iff name_def split: if_splits)
  then have "0x3F \<notin> set ?p" "\<forall>c\<in>set ?p. unat c \<noteq> 0x25" by (fastforce simp: name_char_def)+
  moreover have "hd (split_on 0x3F (?p @ q)) = ?p"
    using assms(3) calculation(1) by (cases q) (auto simp: split_on_free split_on_append simp del: slashed_simps(3))
  moreover have "?p \<noteq> [] \<and> ?p \<noteq> js ''/''"
    using assms(1,2) by (cases k; cases ss) (auto simp: js_def name_def)
  ultimately show ?thesis by (simp add: request_path_def decode_plain del: slashed_simps(3))
qed

lemma resolve_names:
  assumes "list_all name ss" "ss \<noteq> []" "outer \<noteq> []"
  shows "resolve (outer @ dirs) (0x2E # slashed (replicate (length dirs) (js ''..'') @ ss)) = outer @ ss"
proof -
  let ?p = "slashed (replicate (length dirs) (js ''..'') @ ss)"
  have chars: "c \<in> set ?p \<Longrightarrow> c \<in> {0x2F, 0x2E} \<or> name_char c" for c
    using assms(1) up_chars [of c "length dirs"] by (auto simp: slashed_def list_all_iff name_def split: if_splits)
  then have clean: "url_clean (0x2E # ?p) = 0x2E # ?p"
    by (intro clean_printable) (fastforce simp: printable_def name_char_def)
  have target: "takeWhile (\<lambda>c. c \<noteq> 0x3F \<and> c \<noteq> 0x23) (0x2E # ?p) = 0x2E # ?p"
    using chars by (intro take_all_path) (fastforce dest: name_char_neq)
  have "split_slash ([0x2E] @ ?p) = [0x2E] # replicate (length dirs) (js ''..'') @ ss"
    using assms(1) by (intro split_slash_slashed) (auto simp: list_all_iff name_def name_char_def js_def)
  then have segs: "split_slash (0x2E # ?p) = [0x2E] # replicate (length dirs) (js ''..'') @ ss"
    by (simp only: append_Cons append_Nil)
  have dot: "walk (outer @ dirs) ([0x2E] # ts) = walk (outer @ dirs) ts" if "ts \<noteq> []" for ts
    using that dot_segments by (cases ts) (auto simp: js_def)
  have "resolve (outer @ dirs) (0x2E # ?p) = walk (outer @ dirs) (replicate (length dirs) (js ''..'') @ ss)"
    unfolding resolve_def clean target segs using assms(2) by (intro dot) simp
  then show ?thesis using walk_up [OF assms] by simp
qed

lemma handle_names:
  assumes "list_all name ss" "ss \<noteq> []" "outer \<noteq> []" "list_all name outer" "q = [] \<or> hd q = 0x3F"
  shows "handle files (outer @ dirs) (slashed (replicate (length dirs) (js ''..'') @ ss) @ q) =
    Respond (respond (slashed (replicate (length dirs) (js ''..'') @ ss)) (files (slashed (outer @ ss))))"
proof -
  have "list_all (list_all name_char) (outer @ ss)" using assms name_names by auto
  then have "file_path (outer @ ss) = Inr (slashed (outer @ ss))" by (rule file_path_plain)
  then show ?thesis
    using request_names [OF assms(1,2,5)] resolve_names [OF assms(1-3)]
    by (simp add: handle_def del: slashed_simps(3))
qed

subsection \<open>The properties\<close>

lemma sample_names: "name (js ''srv'')" "name (js ''chat'')" "name (js ''www'')" "name (js ''key'')" "name (js ''index.html'')"
  by (simp_all add: name_def name_char_def js_def single_dot_def double_dot_def drive_letter_def lower_url_def)

text \<open>
  C12: files below the root are served. A target made of ordinary names, with any query, is answered
  with status 200, the file of that path below the root and the content type of its extension when
  the file can be read, and with status 404 and the path when it cannot; the target \<open>/\<close> is
  \<open>index.html\<close>. No such request ends the process.
\<close>

theorem serves_below_root:
  assumes "list_all name base" "base \<noteq> []" "list_all name ss" "ss \<noteq> []" "q = [] \<or> hd q = 0x3F"
  shows "handle files base (slashed ss @ q) = Respond
      (case files (slashed base @ slashed ss) of
         None \<Rightarrow> \<lparr>res_status = 404, res_type = None, res_body = Text (js ''not found: '' @ slashed ss)\<rparr>
       | Some d \<Rightarrow> \<lparr>res_status = 200, res_type = Some (content_type (slashed ss)), res_body = Bytes d\<rparr>) \<and>
    handle files base (js ''/'' @ q) = handle files base (js ''/index.html'')"
proof -
  have "handle files (base @ []) (slashed (replicate (length ([] :: jsstring list)) (js ''..'') @ ss) @ q) =
    Respond (respond (slashed (replicate (length ([] :: jsstring list)) (js ''..'') @ ss)) (files (slashed (base @ ss))))"
    by (rule handle_names) (use assms in auto)
  moreover have "hd (split_on 0x3F (js ''/'' @ q)) = js ''/''"
    using assms(5) by (cases q) (auto simp: js_def)
  then have "request_path (js ''/'' @ q) = request_path (js ''/index.html'')"
    by (simp add: request_path_def) (simp add: js_def)
  ultimately show ?thesis by (simp add: respond_def handle_def)
qed

theorem serves_below_root_witness:
  "handle (\<lambda>f. if f = js ''/srv/chat/index.html'' then Some [60] else None) [js ''srv'', js ''chat''] (js ''/index.html'' @ js ''?room=a'') =
    Respond \<lparr>res_status = 200, res_type = Some (content_type (js ''/index.html'')), res_body = Bytes [60]\<rparr>"
proof -
  have "list_all name [js ''srv'', js ''chat'']" "list_all name [js ''index.html'']"
    "js ''?room=a'' = [] \<or> hd (js ''?room=a'') = 0x3F"
    by (simp_all add: sample_names) (simp add: js_def)
  note x = serves_below_root [OF this(1) _ this(2) _ this(3), of "\<lambda>f. if f = js ''/srv/chat/index.html'' then Some [60] else None"]
  have "slashed [js ''srv'', js ''chat''] @ slashed [js ''index.html''] = js ''/srv/chat/index.html''"
    "slashed [js ''index.html''] = js ''/index.html''"
    by (simp_all add: js_def)
  then show ?thesis using x by (simp del: slashed_simps)
qed

text \<open>
  The content type is the one of the extension. A file name with a stem and an extension gets
  the type the table has for the extension, and \<open>application/octet-stream\<close> when there is none.
\<close>

lemma content_type_by_extension:
  assumes "0x2F \<notin> set stem" "stem \<noteq> []" "0x2E \<notin> set e" "0x2F \<notin> set e" "e \<noteq> []"
  shows "content_type (dir @ 0x2F # stem @ 0x2E # e) =
    (case map_of CT (0x2E # e) of None \<Rightarrow> js ''application/octet-stream'' | Some t \<Rightarrow> t)"
proof -
  have "dropWhile (\<lambda>c. c = 0x2F) (rev (dir @ 0x2F # stem @ 0x2E # e)) = rev e @ 0x2E # rev stem @ 0x2F # rev dir"
    using assms(4,5) by (cases "rev e") (auto simp: rev_swap)
  moreover have "takeWhile (\<lambda>c. c \<noteq> 0x2F) (rev e @ 0x2E # rev stem @ 0x2F # rev dir) = rev e @ 0x2E # rev stem"
    using assms(1,4) by (simp add: takeWhile_append)
  ultimately have b: "base_name (dir @ 0x2F # stem @ 0x2E # e) = stem @ 0x2E # e" by (simp add: base_name_def)
  have "takeWhile (\<lambda>c. c \<noteq> 0x2E) (rev (stem @ 0x2E # e)) = rev e"
    using assms(3) by (simp add: takeWhile_append)
  moreover have "stem @ 0x2E # e \<noteq> js ''..''" using assms(2,5) by (cases stem; cases "tl stem") (auto simp: js_def)
  ultimately have "extname (dir @ 0x2F # stem @ 0x2E # e) = 0x2E # e"
    using assms(2) by (simp add: extname_def b Let_def)
  then show ?thesis by (simp add: content_type_def)
qed

text \<open>
  C18: dot segments escape the root. A target that begins with as many \<open>..\<close> segments as there are
  directories to climb is answered with a file outside the directory the server is meant to serve.
\<close>

theorem dot_segments_escape:
  assumes "list_all name outer" "outer \<noteq> []" "list_all name ss" "ss \<noteq> []" "files (slashed (outer @ ss)) = Some d"
  shows "handle files (outer @ dirs) (slashed (replicate (length dirs) (js ''..'') @ ss)) =
    Respond \<lparr>res_status = 200, res_type = Some (content_type (slashed (replicate (length dirs) (js ''..'') @ ss))),
      res_body = Bytes d\<rparr>"
  using handle_names [OF assms(3,4,2,1), of "[]" files dirs] assms(5) by (simp add: respond_def)

theorem dot_segments_escape_witness:
  "handle (\<lambda>f. if f = slashed [js ''srv'', js ''key''] then Some [1, 2] else None) [js ''srv'', js ''www'', js ''chat''] (js ''/../../key'') =
    Respond \<lparr>res_status = 200, res_type = Some (content_type (js ''/../../key'')), res_body = Bytes [1, 2]\<rparr>"
proof -
  have n: "list_all name [js ''srv'']" "list_all name [js ''key'']" by (simp_all add: sample_names)
  have t: "slashed (replicate (length [js ''www'', js ''chat'']) (js ''..'') @ [js ''key'']) = js ''/../../key''"
    by (simp add: js_def numeral_2_eq_2)
  show ?thesis
    using dot_segments_escape [OF n(1) _ n(2), of "\<lambda>f. if f = slashed [js ''srv'', js ''key''] then Some [1, 2] else None"
        "[1, 2]" "[js ''www'', js ''chat'']"] unfolding t by simp
qed



end
