(* ===== verification/Glue_Closures.thy ===== *)
theory Glue_Closures
  imports Glue_Messages
begin

text \<open>
  The closures of the state against the machine of one closure: what a call does to the closure it
  runs, whatever the module does meanwhile, is a run of that machine, so its guarantees hold of the
  closures in the state.
\<close>

lemma update_closure_nth:
  assumes "n < length (closures s)" "closures s ! n = (m, c, b, t)"
  shows "closures (update_closure n f s) ! n = (m, f c, b, t)"
    "\<And>k. k \<noteq> n \<Longrightarrow> closures (update_closure n f s) ! k = closures s ! k"
    "length (closures (update_closure n f s)) = length (closures s)"
  using assms by (simp_all add: update_closure_def)

lemma closure_run_bracket:
  assumes "\<not> collected c" "closure_run mut es (if mut then enter_mut c else enter c) = Some c2" "running c2 \<noteq> []"
  shows "closure_run mut (Call # es @ [Return]) c = Some (if mut then leave_mut c2 else leave c2)"
  using assms closures.run_append [of mut es "[Return]"] by (auto simp: closure_run_def)



end
