(* ===== verification/Glue_Init.thy ===== *)
theory Glue_Init
  imports Glue_Memory Serve Chat_SDP Interfaces
begin

text \<open>
  Loading the wasm module, the end of \<open>pkg/iroh_webrtc_transport.js\<close>: the module variables, the
  asynchronous \<open>__wbg_init\<close> with \<open>__wbg_load\<close> as a machine whose steps are the settlements of the
  promises it awaits, and \<open>initSync\<close>. Instances and modules are numbers; what the engine makes of
  bytes, and whether the module's start function throws, are arguments.
\<close>

subsection \<open>Values and responses\<close>

record fetched =
  r_ok :: bool
  r_status :: nat
  r_statusText :: jsstring
  r_url :: jsstring
  r_type :: jsstring
  r_content_type :: "jsstring option"

text \<open>What a caller may pass. \<open>VObject\<close> is an object whose prototype is \<open>Object.prototype\<close>, by its fields.\<close>

datatype wvalue =
    VUndefined
  | VNull
  | VString jsstring
  | VRequest jsstring
  | VURL jsstring
  | VResponse fetched
  | VBuffer "nat list"
  | VModule nat
  | VObject "(string \<times> wvalue) list"
  | VPromise
  | VOther

datatype failure =
    FailedToFetch jsstring
  | Thrown js_error
  | Rejected nat

text \<open>\<open>({name} = v)\<close>, when \<open>Object.getPrototypeOf(v) === Object.prototype\<close>.\<close>

definition unpack :: "string \<Rightarrow> wvalue \<Rightarrow> (failure + wvalue \<times> bool)" where
  "unpack name v =
     (case v of
        VUndefined \<Rightarrow> Inr (v, False)
      | VNull \<Rightarrow> Inl (Thrown TypeError)
      | VObject fs \<Rightarrow> Inr (case map_of fs name of None \<Rightarrow> VUndefined | Some x \<Rightarrow> x, False)
      | _ \<Rightarrow> Inr (v, True))"

subsection \<open>The module variables\<close>

text \<open>
  The exports of an instance are named by the instance. \<open>started\<close> are the instances whose start
  function was called, \<open>requested\<close> what was fetched, \<open>warnings\<close> how often \<open>console.warn\<close> was called;
  the calls of \<open>__wbg_init\<close> are numbered in the order they were made.
\<close>

datatype phase =
    AwaitModule "wvalue option"
  | AwaitStreaming fetched
  | AwaitBytes fetched
  | AwaitPair
  | AwaitInstance wvalue
  | Settled "failure + nat"

record loader =
  wasm :: "nat option"
  wasmModule :: wvalue
  views :: glue
  started :: "nat list"
  requested :: "jsstring list"
  warnings :: nat
  calls :: "phase list"

record platform =
  has_Response :: bool
  has_Request :: bool
  has_URL :: bool
  has_streaming :: bool
  module_url :: jsstring
  memory_of :: "nat \<Rightarrow> memory"
  start_fails :: "nat \<Rightarrow> failure option"
  compile :: "wvalue \<Rightarrow> failure + nat"
  link :: "nat \<Rightarrow> failure + nat"

text \<open>
  \<open>__wbg_finalize_init\<close>: the variables are set and the cached views forgotten before the start function
  runs; the caches are then the ones of the new instance's memory.
\<close>

definition finalize_init :: "platform \<Rightarrow> nat \<Rightarrow> wvalue \<Rightarrow> loader \<Rightarrow> (failure + nat) \<times> loader" where
  "finalize_init P inst modl L =
     (let L' = L\<lparr>wasm := Some inst, wasmModule := modl,
            views := (views L)\<lparr>mem := memory_of P inst, cachedDataViewMemory0 := None, cachedUint8ArrayMemory0 := None\<rparr>,
            started := started L @ [inst]\<rparr>
      in ((case start_fails P inst of Some e \<Rightarrow> Inl e | None \<Rightarrow> Inr inst), L'))"

subsection \<open>\<open>__wbg_load\<close>\<close>

definition expectedResponseType :: "jsstring \<Rightarrow> bool" where
  "expectedResponseType t \<longleftrightarrow> t \<in> {js ''basic'', js ''cors'', js ''default''}"

definition fetch_failure :: "fetched \<Rightarrow> failure" where
  "fetch_failure r = FailedToFetch (js ''failed to fetch Wasm: '' @ show_int (int (r_status r)) @ js '' '' @ r_statusText r
     @ js '' fetching '' @ [0x27] @ r_url r @ [0x27])"

text \<open>Up to the first await, and what follows a failed streaming compilation.\<close>

definition load :: "platform \<Rightarrow> wvalue \<Rightarrow> phase" where
  "load P v =
     (case v of
        VResponse r \<Rightarrow>
          if \<not> has_Response P then AwaitInstance v
          else if \<not> r_ok r then Settled (Inl (fetch_failure r))
          else if has_streaming P then AwaitStreaming r else AwaitBytes r
      | _ \<Rightarrow> AwaitInstance v)"

definition streaming_failed :: "fetched \<Rightarrow> failure \<Rightarrow> phase \<times> nat" where
  "streaming_failed r e =
     (if expectedResponseType (r_type r) \<and> r_content_type r \<noteq> Some (js ''application/wasm'') then (AwaitBytes r, 1)
      else (Settled (Inl e), 0))"

subsection \<open>\<open>__wbg_init\<close>\<close>

text \<open>What an awaited promise settles to.\<close>

datatype payload =
    Value wvalue
  | Bytes "nat list"
  | Pair nat nat
  | Instance nat

datatype init_event =
    CallInit wvalue
  | Settle nat "failure + payload"

text \<open>The synchronous part of a call.\<close>

definition is_location :: "platform \<Rightarrow> wvalue \<Rightarrow> jsstring option" where
  "is_location P v = (case v of
       VString u \<Rightarrow> Some u
     | VRequest u \<Rightarrow> if has_Request P then Some u else None
     | VURL u \<Rightarrow> if has_URL P then Some u else None
     | _ \<Rightarrow> None)"

definition init_call :: "platform \<Rightarrow> wvalue \<Rightarrow> loader \<Rightarrow> loader" where
  "init_call P arg L =
     (case wasm L of
        Some i \<Rightarrow> L\<lparr>calls := calls L @ [Settled (Inr i)]\<rparr>
      | None \<Rightarrow>
          (case unpack ''module_or_path'' arg of
             Inl e \<Rightarrow> L\<lparr>calls := calls L @ [Settled (Inl e)]\<rparr>
           | Inr (v, warned) \<Rightarrow>
               let v' = (if v = VUndefined then VURL (module_url P) else v);
                   L' = L\<lparr>warnings := warnings L + (if warned then 1 else 0)\<rparr>
               in (case is_location P v' of
                     Some u \<Rightarrow> L'\<lparr>requested := requested L @ [u], calls := calls L @ [AwaitModule None]\<rparr>
                   | None \<Rightarrow> L'\<lparr>calls := calls L @ [AwaitModule (if v' = VPromise then None else Some v')]\<rparr>)))"

text \<open>The continuations. \<open>None\<close> where the promise cannot settle in that way.\<close>

definition set_phase :: "nat \<Rightarrow> phase \<Rightarrow> loader \<Rightarrow> loader" where
  "set_phase n p L = L\<lparr>calls := (calls L)[n := p]\<rparr>"

definition finish :: "platform \<Rightarrow> nat \<Rightarrow> nat \<Rightarrow> wvalue \<Rightarrow> loader \<Rightarrow> loader" where
  "finish P n inst modl L = (case finalize_init P inst modl L of (r, L') \<Rightarrow> set_phase n (Settled r) L')"

fun settle :: "platform \<Rightarrow> nat \<Rightarrow> phase \<Rightarrow> failure + payload \<Rightarrow> loader \<Rightarrow> loader option" where
  "settle P n (AwaitModule None) (Inl e) L = Some (set_phase n (Settled (Inl e)) L)"
| "settle P n (AwaitModule known) (Inr (Value v)) L =
     (if known = None \<or> known = Some v then Some (set_phase n (load P v) L) else None)"
| "settle P n (AwaitStreaming r) (Inl e) L =
     (case streaming_failed r e of (p, w) \<Rightarrow> Some (set_phase n p (L\<lparr>warnings := warnings L + w\<rparr>)))"
| "settle P n (AwaitStreaming r) (Inr (Pair i m)) L = Some (finish P n i (VModule m) L)"
| "settle P n (AwaitBytes r) (Inl e) L = Some (set_phase n (Settled (Inl e)) L)"
| "settle P n (AwaitBytes r) (Inr (Bytes bs)) L = Some (set_phase n AwaitPair L)"
| "settle P n AwaitPair (Inl e) L = Some (set_phase n (Settled (Inl e)) L)"
| "settle P n AwaitPair (Inr (Pair i m)) L = Some (finish P n i (VModule m) L)"
| "settle P n (AwaitInstance v) (Inl e) L = Some (set_phase n (Settled (Inl e)) L)"
| "settle P n (AwaitInstance v) (Inr (Instance i)) L = (case v of VModule m \<Rightarrow> Some (finish P n i v L) | _ \<Rightarrow> None)"
| "settle P n (AwaitInstance v) (Inr (Pair i m)) L = (case v of VBuffer bs \<Rightarrow> Some (finish P n i (VModule m) L) | _ \<Rightarrow> None)"
| "settle P n p r L = None"

definition init_step :: "platform \<Rightarrow> init_event \<Rightarrow> loader \<Rightarrow> loader option" where
  "init_step P e L = (case e of
       CallInit v \<Rightarrow> Some (init_call P v L)
     | Settle n r \<Rightarrow> if n < length (calls L) then settle P n (calls L ! n) r L else None)"

definition init_run :: "platform \<Rightarrow> init_event list \<Rightarrow> loader \<Rightarrow> loader option" where
  "init_run P = run_events (init_step P)"

definition fresh_loader :: "glue \<Rightarrow> loader" where
  "fresh_loader g = \<lparr>wasm = None, wasmModule = VUndefined, views = g, started = [], requested = [], warnings = 0, calls = []\<rparr>"

subsection \<open>\<open>initSync\<close>\<close>

definition initSync :: "platform \<Rightarrow> wvalue \<Rightarrow> loader \<Rightarrow> (failure + nat) \<times> loader" where
  "initSync P arg L =
     (case wasm L of
        Some i \<Rightarrow> (Inr i, L)
      | None \<Rightarrow>
          (case unpack ''module'' arg of
             Inl e \<Rightarrow> (Inl e, L)
           | Inr (v, warned) \<Rightarrow>
               let L' = L\<lparr>warnings := warnings L + (if warned then 1 else 0)\<rparr> in
               (case (case v of VModule m \<Rightarrow> Inr m | _ \<Rightarrow> compile P v) of
                  Inl e \<Rightarrow> (Inl e, L')
                | Inr m \<Rightarrow> (case link P m of Inl e \<Rightarrow> (Inl e, L') | Inr i \<Rightarrow> finalize_init P i (VModule m) L'))))"

subsection \<open>The response of the example's server\<close>

text \<open>\<open>fetch\<close> of a target of \<open>serve.mjs\<close> by a page of the same origin.\<close>

definition fetch_from :: "jsstring \<Rightarrow> (jsstring \<Rightarrow> nat list option) \<Rightarrow> jsstring list \<Rightarrow> jsstring \<Rightarrow> failure + fetched" where
  "fetch_from origin files base target =
     (case handle files base target of
        Crash e \<Rightarrow> Inl (Thrown TypeError)
      | Respond r \<Rightarrow> Inr \<lparr>r_ok = (res_status r = 200), r_status = res_status r,
          r_statusText = (if res_status r = 200 then js ''OK'' else js ''Not Found''),
          r_url = origin @ target, r_type = js ''basic'', r_content_type = res_type r\<rparr>)"

end
