(* ===== verification/Glue_Init_Correct.thy ===== *)
theory Glue_Init_Correct
  imports Glue_Init Serve_Correct
begin

text \<open>
  Initialisation under every interleaving of calls and settlements: which instance the glue uses,
  how many are made, and what the page's own server answers. Two calls that overlap make two
  instances; a start function that throws leaves the instance in place.
\<close>

subsection \<open>Invariant of a run\<close>

definition init_inv :: "platform \<Rightarrow> loader \<Rightarrow> bool" where
  "init_inv P L \<longleftrightarrow>
     wasm L = (if started L = [] then None else Some (last (started L))) \<and>
     (started L \<noteq> [] \<longrightarrow> mem (views L) = memory_of P (last (started L)) \<and>
        cachedDataViewMemory0 (views L) = None \<and> cachedUint8ArrayMemory0 (views L) = None) \<and>
     (\<forall>p\<in>set (calls L). \<forall>i. p = Settled (Inr i) \<longrightarrow> i \<in> set (started L))"

lemma set_phase_fields [simp]:
  "wasm (set_phase n p L) = wasm L" "started (set_phase n p L) = started L" "views (set_phase n p L) = views L"
  "calls (set_phase n p L) = (calls L)[n := p]" "requested (set_phase n p L) = requested L"
  by (simp_all add: set_phase_def)

lemma init_inv_phase:
  assumes "init_inv P L" "\<And>i. p = Settled (Inr i) \<Longrightarrow> i \<in> set (started L)"
  shows "init_inv P (set_phase n p L)"
proof -
  have "q = p \<or> q \<in> set (calls L)" if "q \<in> set ((calls L)[n := p])" for q
    using that set_update_subset_insert [of "calls L" n p] by blast
  with assms show ?thesis unfolding init_inv_def set_phase_fields by metis
qed

lemma init_inv_warnings: "init_inv P (L\<lparr>warnings := w\<rparr>) = init_inv P L"
  by (simp add: init_inv_def)

lemma init_inv_finish: "init_inv P L \<Longrightarrow> init_inv P (finish P n i m L)"
  unfolding finish_def finalize_init_def Let_def
  by (simp only: prod.case, rule init_inv_phase)
    (auto simp: init_inv_def split: option.splits)

lemma load_unsettled: "load P v \<noteq> Settled (Inr i)"
  by (simp add: load_def split: wvalue.splits)

lemma init_inv_settle:
  assumes "settle P n p r L = Some L'" "init_inv P L"
  shows "init_inv P L'"
  using assms
  by (induction P n p r L rule: settle.induct)
    (auto simp: init_inv_warnings load_unsettled streaming_failed_def
      intro!: init_inv_phase init_inv_finish split: if_splits wvalue.splits)

lemma init_inv_call: "init_inv P L \<Longrightarrow> init_inv P (init_call P v L)"
  by (auto simp: init_call_def init_inv_def Let_def split: option.splits sum.splits if_splits)

lemma init_inv_step: "init_step P e L = Some L' \<Longrightarrow> init_inv P L \<Longrightarrow> init_inv P L'"
  by (auto simp: init_step_def init_inv_call split: init_event.splits if_splits dest: init_inv_settle)

subsection \<open>How many instances\<close>

fun is_open :: "phase \<Rightarrow> bool" where
  "is_open (Settled r) \<longleftrightarrow> False"
| "is_open p \<longleftrightarrow> True"

definition open_calls :: "loader \<Rightarrow> nat" where
  "open_calls L = length (filter is_open (calls L))"

text \<open>No call is made while another is pending.\<close>

fun sequential :: "platform \<Rightarrow> init_event list \<Rightarrow> loader \<Rightarrow> bool" where
  "sequential P [] L \<longleftrightarrow> True"
| "sequential P (e # es) L \<longleftrightarrow> (case e of CallInit v \<Rightarrow> open_calls L = 0 | Settle n r \<Rightarrow> True) \<and>
     (case init_step P e L of None \<Rightarrow> True | Some L' \<Rightarrow> sequential P es L')"

lemma length_filter_update:
  "n < length xs \<Longrightarrow> Q (xs ! n) \<Longrightarrow>
    length (filter Q (xs[n := y])) + 1 = length (filter Q xs) + (if Q y then 1 else 0)"
  by (induction xs arbitrary: n) (auto split: nat.splits simp: nth_Cons)

lemma open_calls_phase:
  assumes "n < length (calls L)" "is_open (calls L ! n)"
  shows "open_calls (set_phase n p L) + 1 = open_calls L + (if is_open p then 1 else 0)"
  using length_filter_update [where Q = is_open, OF assms, of p] by (simp add: open_calls_def)

lemma finish_count:
  assumes "n < length (calls L)" "is_open (calls L ! n)"
  shows "length (started (finish P n i m L)) + open_calls (finish P n i m L) = length (started L) + open_calls L"
  using open_calls_phase [of n "snd (finalize_init P i m L)" "Settled (fst (finalize_init P i m L))"] assms
  by (simp add: finish_def finalize_init_def Let_def open_calls_def split: prod.splits)

lemma open_calls_warnings [simp]: "open_calls (L\<lparr>warnings := w\<rparr>) = open_calls L"
  by (simp add: open_calls_def)

lemma phase_count:
  assumes "n < length (calls L)" "is_open (calls L ! n)"
  shows "length (started (set_phase n p L)) + open_calls (set_phase n p L) \<le> length (started L) + open_calls L"
  using open_calls_phase [OF assms, of p] by (simp split: if_splits)

lemma settle_open: "settle P n p r L = Some L' \<Longrightarrow> is_open p"
  by (cases p) auto

lemma settle_count:
  assumes "settle P n p r L = Some L'" "n < length (calls L)" "calls L ! n = p"
  shows "length (started L') + open_calls L' \<le> length (started L) + open_calls L"
proof -
  have o: "is_open (calls L ! n)" using settle_open assms by blast
  note pc = phase_count [OF assms(2) o] and fc = finish_count [OF assms(2) o]
  have pw: "length (started L) + open_calls (set_phase n q (L\<lparr>warnings := w\<rparr>)) \<le> length (started L) + open_calls L" for q w
    using phase_count [of n "L\<lparr>warnings := w\<rparr>" q] assms(2) o by simp
  show ?thesis using assms(1) pc fc pw
    by (induction P n p r L rule: settle.induct) (auto split: if_splits wvalue.splits prod.splits)
qed

lemma call_count:
  "length (started (init_call P v L)) = length (started L)"
  "open_calls (init_call P v L) \<le> open_calls L + (if wasm L = None then 1 else 0)"
  by (auto simp: init_call_def Let_def open_calls_def split: option.splits sum.splits)

text \<open>The calls made before the first instance is in place.\<close>

definition early :: "init_event \<Rightarrow> loader \<Rightarrow> nat" where
  "early e L = (case e of CallInit v \<Rightarrow> if wasm L = None then 1 else 0 | Settle n r \<Rightarrow> 0)"

definition early_calls :: "platform \<Rightarrow> init_event list \<Rightarrow> loader \<Rightarrow> nat" where
  "early_calls P = run_cost (init_step P) early"

interpretation loading: weighted_machine "init_step P" "init_inv P" "\<lambda>L. length (started L) + open_calls L" early for P
proof (unfold_locales, goal_cases)
  case (1 e L M)
  then show ?case by (rule init_inv_step)
next
  case (2 e L M)
  show ?case
  proof (cases e)
    case (CallInit v)
    then show ?thesis using 2 call_count [of P v L] by (simp add: init_step_def early_def)
  next
    case (Settle n r)
    then show ?thesis using 2 settle_count [of P n "calls L ! n" r L M] by (auto simp: init_step_def split: if_splits)
  qed
qed

lemma sequential_count:
  assumes "run_events (init_step P) es L = Some L'" "sequential P es L" "init_inv P L" "length (started L) + open_calls L \<le> 1"
  shows "length (started L') + open_calls L' \<le> 1"
  using assms
proof (induction es arbitrary: L)
  case (Cons e es)
  then obtain M where M: "init_step P e L = Some M" "run_events (init_step P) es M = Some L'" by (auto split: option.splits)
  have "length (started M) + open_calls M \<le> 1"
  proof (cases e)
    case (CallInit v)
    have "open_calls L = 0" "wasm L = None \<longleftrightarrow> started L = []"
      using Cons.prems CallInit by (auto simp: init_inv_def)
    then show ?thesis using M(1) CallInit call_count [of P v L] Cons.prems(4) by (auto simp: init_step_def split: if_splits)
  next
    case (Settle n r)
    then show ?thesis using M(1) settle_count [of P n "calls L ! n" r L M] Cons.prems(4)
      by (auto simp: init_step_def split: if_splits)
  qed
  moreover have "sequential P es M" using Cons.prems(2) M(1) by simp
  ultimately show ?case using Cons.IH M Cons.prems(3) init_inv_step by blast
qed simp

lemma fresh_inv: "init_inv P (fresh_loader g)" "started (fresh_loader g) = []" "open_calls (fresh_loader g) = 0"
  by (simp_all add: init_inv_def fresh_loader_def open_calls_def)

subsection \<open>The properties\<close>

text \<open>
  C10: the glue uses the instance that was made last. In every interleaving of calls of the
  initialiser and settlements of their promises, the module variable holds the last instance whose
  start function was called, the memory the glue sees is that instance's and no view of another
  memory is cached; every call that is fulfilled gives an instance that was started; there are no
  more instances than calls made before the first was in place; and when no call is made while
  another is pending there is at most one.
\<close>

theorem init_uses_last_instance:
  assumes "init_run P es (fresh_loader g) = Some L"
  shows "wasm L = (if started L = [] then None else Some (last (started L))) \<and>
    (started L \<noteq> [] \<longrightarrow> mem (views L) = memory_of P (last (started L)) \<and>
      cachedDataViewMemory0 (views L) = None \<and> cachedUint8ArrayMemory0 (views L) = None) \<and>
    (\<forall>i. Settled (Inr i) \<in> set (calls L) \<longrightarrow> i \<in> set (started L)) \<and>
    length (started L) \<le> early_calls P es (fresh_loader g) \<and>
    (sequential P es (fresh_loader g) \<longrightarrow> length (started L) \<le> 1)"
proof -
  note run = assms [unfolded init_run_def]
  have inv: "init_inv P L" by (rule loading.run_inv [OF run fresh_inv(1)])
  have "length (started L) \<le> early_calls P es (fresh_loader g)"
    using loading.run_weight [OF run fresh_inv(1)] by (simp add: early_calls_def fresh_inv)
  moreover have "length (started L) \<le> 1" if "sequential P es (fresh_loader g)"
    using sequential_count [OF run that fresh_inv(1)] by (simp add: fresh_inv)
  ultimately show ?thesis using inv by (auto simp: init_inv_def)
qed

definition sample_platform :: platform where
  "sample_platform = \<lparr>has_Response = True, has_Request = True, has_URL = True, has_streaming = True,
     module_url = js ''/pkg/iroh_webrtc_transport_bg.wasm'', memory_of = (\<lambda>i. \<lparr>bytes = (\<lambda>a. 0), mem_size = 65536, buffer = i\<rparr>),
     start_fails = (\<lambda>i. None), compile = (\<lambda>v. Inl (Thrown TypeError)), link = (\<lambda>m. Inr m)\<rparr>"

definition sample_views :: glue where
  "sample_views = \<lparr>mem = \<lparr>bytes = (\<lambda>a. 0), mem_size = 0, buffer = 0\<rparr>, cachedUint8ArrayMemory0 = None,
     cachedDataViewMemory0 = None, WASM_VECTOR_LEN = 0, numBytesDecoded = 0, decoder_fed = 0\<rparr>"

definition sample_response :: fetched where
  "sample_response = \<lparr>r_ok = True, r_status = 200, r_statusText = js ''OK'', r_url = js ''u'', r_type = js ''basic'',
     r_content_type = Some (js ''application/wasm'')\<rparr>"

definition sample_init :: "init_event list" where
  "sample_init = [CallInit VUndefined, Settle 0 (Inr (Value (VResponse sample_response))), Settle 0 (Inr (Pair 1 7)), CallInit VUndefined]"

lemmas init_run_simps = init_run_def init_step_def init_call_def unpack_def is_location_def load_def finish_def finalize_init_def
  set_phase_def fresh_loader_def streaming_failed_def

theorem init_uses_last_instance_witness:
  "(case init_run sample_platform sample_init (fresh_loader sample_views) of
     None \<Rightarrow> False | Some L \<Rightarrow> wasm L = Some 1 \<and> length (started L) \<le> 1)"
proof -
  obtain L where L: "init_run sample_platform sample_init (fresh_loader sample_views) = Some L" "started L = [1]"
    by (simp add: sample_init_def init_run_simps sample_platform_def sample_response_def)
  have s: "sequential sample_platform sample_init (fresh_loader sample_views)"
    by (simp add: sample_init_def init_run_simps sample_platform_def sample_response_def open_calls_def)
  show ?thesis using init_uses_last_instance [OF L(1)] s L by simp
qed

text \<open>Two calls that overlap both instantiate the module, and the first caller is left with an instance the glue no longer uses.\<close>

lemma overlapping_calls_replace_instance:
  "\<exists>L. init_run sample_platform [CallInit VUndefined, CallInit VUndefined,
       Settle 0 (Inr (Value (VResponse sample_response))), Settle 1 (Inr (Value (VResponse sample_response))),
       Settle 0 (Inr (Pair 1 7)), Settle 1 (Inr (Pair 2 7))] (fresh_loader sample_views) = Some L \<and>
     calls L = [Settled (Inr 1), Settled (Inr 2)] \<and> wasm L = Some 2 \<and> started L = [1, 2]"
  by (simp add: init_run_simps sample_platform_def sample_response_def)

text \<open>When the start function throws the call is rejected, and the next call is fulfilled with that instance.\<close>

lemma failed_start_sticks:
  "\<exists>L. init_run (sample_platform\<lparr>start_fails := (\<lambda>i. Some (Rejected 0))\<rparr>) [CallInit VUndefined,
       Settle 0 (Inr (Value (VResponse sample_response))), Settle 0 (Inr (Pair 1 7)), CallInit VUndefined]
       (fresh_loader sample_views) = Some L \<and>
     calls L = [Settled (Inl (Rejected 0)), Settled (Inr 1)] \<and> wasm L = Some 1"
  by (simp add: init_run_simps sample_platform_def sample_response_def)

lemma init_inv_sync: "init_inv P L \<Longrightarrow> init_inv P (snd (initSync P v L))"
  by (auto simp: initSync_def finalize_init_def init_inv_def Let_def split: option.splits sum.splits wvalue.splits)

lemma finalize_init_wasm: "finalize_init P i m L = (Inr k, L') \<Longrightarrow> k = i \<and> wasm L' = Some i"
  by (auto simp: finalize_init_def Let_def split: option.splits)

lemma initSync_again:
  assumes "initSync P v L = (Inr i, L')"
  shows "initSync P w L' = (Inr i, L')"
proof -
  have "wasm L' = Some i" using assms
    by (auto simp: initSync_def Let_def dest: finalize_init_wasm split: option.splits sum.splits prod.splits)
  then show ?thesis by (simp add: initSync_def)
qed

subsection \<open>The page and its server\<close>

definition module_path :: "jsstring list" where
  "module_path = [js ''pkg'', js ''iroh_webrtc_transport_bg.wasm'']"

lemma module_names: "list_all name module_path"
  by (simp add: module_path_def name_def name_char_def js_def single_dot_def double_dot_def drive_letter_def lower_url_def)

lemma module_content_type: "content_type (slashed module_path) = js ''application/wasm''"
  by (simp add: module_path_def content_type_def extname_def base_name_def CT_def js_def)

lemma fetch_module:
  assumes "list_all name base" "base \<noteq> []"
  shows "fetch_from origin files base (slashed module_path) = Inr (case files (slashed (base @ module_path)) of
      Some d \<Rightarrow> \<lparr>r_ok = True, r_status = 200, r_statusText = js ''OK'', r_url = origin @ slashed module_path,
        r_type = js ''basic'', r_content_type = Some (js ''application/wasm'')\<rparr>
    | None \<Rightarrow> \<lparr>r_ok = False, r_status = 404, r_statusText = js ''Not Found'', r_url = origin @ slashed module_path,
        r_type = js ''basic'', r_content_type = None\<rparr>)"
proof -
  have "module_path \<noteq> []" by (simp add: module_path_def)
  from handle_names [OF module_names this assms(2,1), of "[]" files "[]"]
  have "handle files base (slashed module_path) = Respond (respond (slashed module_path) (files (slashed (base @ module_path))))"
    by (simp del: slashed_simps)
  then show ?thesis by (simp add: fetch_from_def respond_def module_content_type del: slashed_simps split: option.splits)
qed

lemma digits_404: "digits 404 = [52, 48, 52]"
  by (simp add: digits.simps)

text \<open>
  C17: the example's page and its server fit together. A page that calls the initialiser without an
  argument requests the module from \<open>serve.mjs\<close>; when the file is there, the streamed compilation
  gives the instance without a warning, and if the streaming fails its error is reported, the slow
  path is not tried; when the file is missing the call is rejected with the status of the response
  in the message, and the module variable stays undefined.
\<close>

theorem page_loads_module:
  assumes "list_all name base" "base \<noteq> []" "has_Response P" "has_URL P" "has_streaming P"
    "module_url P = slashed module_path" "fetch_from origin files base (module_url P) = Inr r"
  shows "(case files (slashed (base @ module_path)) of
      Some d \<Rightarrow>
        init_run P [CallInit VUndefined, Settle 0 (Inr (Value (VResponse r))), Settle 0 (Inr (Pair i m))] (fresh_loader g) =
          Some \<lparr>wasm = Some i, wasmModule = VModule m,
            views = g\<lparr>mem := memory_of P i, cachedDataViewMemory0 := None, cachedUint8ArrayMemory0 := None\<rparr>,
            started = [i], requested = [slashed module_path], warnings = 0,
            calls = [Settled (case start_fails P i of Some e \<Rightarrow> Inl e | None \<Rightarrow> Inr i)]\<rparr> \<and>
        init_run P [CallInit VUndefined, Settle 0 (Inr (Value (VResponse r))), Settle 0 (Inl e)] (fresh_loader g) =
          Some ((fresh_loader g)\<lparr>requested := [slashed module_path], calls := [Settled (Inl e)]\<rparr>)
    | None \<Rightarrow>
        init_run P [CallInit VUndefined, Settle 0 (Inr (Value (VResponse r)))] (fresh_loader g) =
          Some ((fresh_loader g)\<lparr>requested := [slashed module_path], calls := [Settled (Inl (FailedToFetch
            (js ''failed to fetch Wasm: 404 Not Found fetching '' @ [0x27] @ origin @ slashed module_path @ [0x27])))]\<rparr>))"
  using assms(3-7) fetch_module [OF assms(1,2), of origin files]
  by (auto simp: init_run_simps expectedResponseType_def fetch_failure_def show_int_def digits_404 js_def
      simp del: slashed_simps split: option.splits)

theorem page_loads_module_witness:
  "init_run sample_platform [CallInit VUndefined,
     Settle 0 (Inr (Value (VResponse (projr (fetch_from (js ''o'') (\<lambda>f. Some [0]) [js ''srv''] (slashed module_path)))))),
     Settle 0 (Inl (Rejected 3))] (fresh_loader sample_views) =
   Some ((fresh_loader sample_views)\<lparr>requested := [slashed module_path], calls := [Settled (Inl (Rejected 3))]\<rparr>)"
proof -
  have url: "module_url sample_platform = slashed module_path"
    by (simp add: sample_platform_def module_path_def js_def)
  have p: "has_Response sample_platform" "has_URL sample_platform" "has_streaming sample_platform"
    by (simp_all add: sample_platform_def)
  have n: "list_all name [js ''srv'']" using sample_names by simp
  have ne: "[js ''srv''] \<noteq> []" by simp
  obtain r where r: "fetch_from (js ''o'') (\<lambda>f. Some [0]) [js ''srv''] (slashed module_path) = Inr r"
    using fetch_module [OF n ne] by metis
  then have r': "fetch_from (js ''o'') (\<lambda>f. Some [0]) [js ''srv''] (module_url sample_platform) = Inr r"
    by (simp only: url)
  show ?thesis using page_loads_module [OF n ne p url r', where i = 0 and m = 0 and g = sample_views and e = "Rejected 3"]
    unfolding r by simp
qed

end
