(* ===== verification/Spec2Isabelle.thy ===== *)
theory Spec2Isabelle
  imports QR_Data Chat_Termination Chat_Exchange Chat_Session_Correct Serve_Correct Glue_Closures Glue_Init_Correct
begin

text \<open>
  A verification library of the browser chat of the iroh WebRTC transport, the JavaScript under
  \<open>src/examples/chat\<close>.

  \<^bold>\<open>The program.\<close> Two pages open an \<open>RTCDataChannel\<close> and run iroh's QUIC over it. \<open>serve.mjs\<close> serves the
  files. \<open>pkg/iroh_webrtc_transport.js\<close> (the glue) loads the wasm module, passes strings, objects and
  closures between the page and the module, and is the module's only access to the browser.
  \<open>chat.js\<close> is the page: it probes STUN servers, lets two tabs find each other over a
  \<open>BroadcastChannel\<close> or two devices exchange links, shows the links as QR codes with
  \<open>vendor/qrcode.js\<close>, and hands the open channel to \<open>start_chat\<close> of the glue.

  \<^bold>\<open>Conventions.\<close> A \<open>throw\<close> or a rejected promise is \<open>Inl\<close>, or a field of the state that holds the error.
  Asynchronous code is a machine: the state between two awaits is a value, and the promises, timers
  and messages of the platform are its events, in any order the platform allows. Strings are lists
  of UTF-16 code units; numbers that wasm passes are 32-bit words; the integers of \<open>qrcode.js\<close> are \<open>int\<close>
  with the 32-bit operators written out. What is not under \<open>src/\<close> is an argument: the file system, the
  allocator and the exports of the wasm module, the browser's objects, the compilation of wasm.

  \<^bold>\<open>Shared theories.\<close>
  \<^item> \<open>Prelude\<close>: errors, the sequencing of fallible code, JavaScript's integer operators (\<open>js_ops\<close>).
  \<^item> \<open>Interfaces\<close>: the contracts that components share, as locales. \<open>machine\<close> and \<open>weighted_machine\<close>
    (runs keep an invariant and a bound; interpreted by closures, executors and the loading of the
    module), \<open>promise\<close> (the first event that decides settles it; by the STUN probe and the wait for
    candidates), \<open>codec\<close> and \<open>codec_stack\<close> (what is encoded is read back; by fingerprints, descriptions
    and the two links).
  \<^item> \<open>JS_Text\<close>, \<open>JS_URI\<close>: code points, UTF-8, \<open>encodeURIComponent\<close>, \<open>decodeURIComponent\<close>, \<open>URLSearchParams\<close>.

  \<^bold>\<open>The page, \<open>chat.js\<close>.\<close>
  \<^item> \<open>Chat_Link\<close>: \<open>b64u\<close>, \<open>unb64u\<close>, \<open>fpToB64\<close>, \<open>b64ToFp\<close>; a fingerprint survives the link.
  \<^item> \<open>Chat_SDP\<close>, \<open>Chat_SDP_Correct\<close>: \<open>packSdp\<close> with its regular expressions, \<open>unpackSdp\<close>; a packed description
    is unpacked to one with the same attributes, and what the packed form loses.
  \<^item> \<open>Chat_Stun\<close>: \<open>probeStun\<close>, \<open>readStunCache\<close>, \<open>resolveIceServers\<close>; a probe settles once, the four fastest
    servers are used, a fresh cache is used as it is.
  \<^item> \<open>Chat_UI\<close>: the elements of the page, \<open>addMsg\<close>, \<open>setStatus\<close>, \<open>enableChat\<close>, \<open>startTransport\<close>, the handlers;
    an invariant of every sequence of events.
  \<^item> \<open>Chat_Signaling\<close>, \<open>Chat_Pairing\<close>: \<open>broadcastSignaling\<close> in any number of tabs, with the operation chains
    of the connections and one queue for each pair of tabs. Two tabs refine a protocol of ten stages: they are safe in
    every interleaving and complete when nothing is left to deliver; three tabs are not safe.
  \<^item> \<open>Chat_Manual\<close>, \<open>Chat_Exchange\<close>: \<open>waitIceComplete\<close>, \<open>renderQR\<close>, \<open>manualSignaling\<close>, \<open>bootstrap\<close>; the wait
    returns, the offer and the answer reach the other page, the page shows no foreign markup, and a
    broken link is not reported.

  \<^bold>\<open>The server, \<open>serve.mjs\<close>.\<close> \<open>Serve\<close>, \<open>Serve_Correct\<close>: from the target to a file URL, a path and a response;
  ordinary targets are answered from below the root, dot segments leave it, malformed targets end
  the process.

  \<^bold>\<open>The glue, \<open>pkg/iroh_webrtc_transport.js\<close>.\<close>
  \<^item> \<open>Glue_Memory\<close>, \<open>Glue_Memory_Correct\<close>: the cached views of a memory that grows, \<open>passStringToWasm0\<close>,
    \<open>getStringFromWasm0\<close>; strings arrive as UTF-8 whatever the allocator does, and come back.
  \<^item> \<open>Glue_Objects\<close>, \<open>Glue_Objects_Correct\<close>: the exported classes, the closures of \<open>makeClosure\<close> and
    \<open>makeMutClosure\<close>, the executor of \<open>new Promise\<close>; a pointer is given back once, a closure is destroyed once.
  \<^item> \<open>Glue_Debug\<close>: \<open>debugString\<close>.
  \<^item> \<open>Glue_State\<close>, \<open>Glue_Imports\<close>, \<open>Glue_Imports_Correct\<close>: the state of the glue, its environment, and all
    132 entries of \<open>__wbg_get_imports\<close> in their order; wrapped imports never throw, references and
    strings come back, the type tests classify.
  \<^item> \<open>Glue_Closures\<close>, \<open>Glue_Messages\<close>: a call of a closure in the state refines the machine of one closure; a
    message arrives as it was sent.
  \<^item> \<open>Glue_Init\<close>, \<open>Glue_Init_Correct\<close>: \<open>__wbg_init\<close>, \<open>__wbg_load\<close>, \<open>__wbg_finalize_init\<close>, \<open>initSync\<close> under every
    interleaving, and together with \<open>serve.mjs\<close>.

  \<^bold>\<open>The QR library, \<open>vendor/qrcode.js\<close>.\<close> \<open>GF256\<close>, \<open>QR_Math\<close>, \<open>QR_Polynomial\<close>, \<open>QR_Generator\<close>, \<open>QR_RSBlock\<close>,
  \<open>QR_BitBuffer\<close>, \<open>QR_Modes\<close>, \<open>QR_Data\<close>, \<open>QR_Codewords\<close>: from the segments to the codewords of a symbol; the tables
  compute in the field, division gives a remainder, a reader of the codewords finds the segments.

  \<^bold>\<open>Termination and bounds.\<close> Loops are structural recursions, or \<open>function\<close>s with a measure (\<open>matchAll\<close>,
  the decimal digits). Polynomial division is written with \<open>partial_function\<close> where the source recurses,
  and proved to return. No fuel is used. A bound on a string's length, three bytes for a code unit
  below \<open>2 ^ 31\<close>, is a hypothesis where the module's 32-bit lengths need it.

  \<^bold>\<open>Not modelled.\<close> The placement of modules, masks, automatic choice of a version and the renderers of
  \<open>qrcode.js\<close>, which is vendored; the wasm binary and the Rust crate it comes from; the markup of
  \<open>index.html\<close>; listening on the server's port. The page's \<open>qrcode\<close> call is an argument of \<open>renderQR\<close>. The
  engine's regular expressions, URL parser and encoders are written out as the code uses them.
\<close>

end
